theory Spec2Isabelle
  imports Main "HOL-Library.Word"
begin

unbundle bit_operations_syntax

section \<open>The fingerprint: \<open>sha256\<close> of \<open>src/index.js\<close>\<close>

text \<open>
  \<^verbatim>\<open>
  function sha256(str) {
    return crypto.createHash("sha256").update(String(str)).digest("hex");
  }
  \<close>
  The hash is SHA-256 (FIPS 180-4) over the UTF-8 bytes of the string, printed as
  lower-case hexadecimal. A \<open>string\<close> is a list of bytes, so the argument of the model
  is the UTF-8 content of the JavaScript string; the conversion \<open>String(str)\<close> of a
  value that is not a string is \<open>to_String\<close> below, applied by the callers.
\<close>

type_synonym u8 = "8 word"
type_synonym u32 = "32 word"

record sha_state =
  ha :: u32
  hb :: u32
  hc :: u32
  hd :: u32
  he :: u32
  hf :: u32
  hg :: u32
  hh :: u32

definition sha_init :: sha_state where
  "sha_init = \<lparr>ha = 0x6a09e667, hb = 0xbb67ae85, hc = 0x3c6ef372, hd = 0xa54ff53a,
               he = 0x510e527f, hf = 0x9b05688c, hg = 0x1f83d9ab, hh = 0x5be0cd19\<rparr>"

definition sha_K :: "u32 list" where
  \<comment> \<open>the 64 round constants of SHA-256, in decimal\<close>
  "sha_K =
    [1116352408, 1899447441, 3049323471, 3921009573, 961987163, 1508970993,
     2453635748, 2870763221, 3624381080, 310598401, 607225278, 1426881987,
     1925078388, 2162078206, 2614888103, 3248222580, 3835390401, 4022224774,
     264347078, 604807628, 770255983, 1249150122, 1555081692, 1996064986,
     2554220882, 2821834349, 2952996808, 3210313671, 3336571891, 3584528711,
     113926993, 338241895, 666307205, 773529912, 1294757372, 1396182291,
     1695183700, 1986661051, 2177026350, 2456956037, 2730485921, 2820302411,
     3259730800, 3345764771, 3516065817, 3600352804, 4094571909, 275423344,
     430227734, 506948616, 659060556, 883997877, 958139571, 1322822218,
     1537002063, 1747873779, 1955562222, 2024104815, 2227730452, 2361852424,
     2428436474, 2756734187, 3204031479, 3329325298]"

definition rotr :: "nat \<Rightarrow> u32 \<Rightarrow> u32" where
  "rotr n x = drop_bit n x OR push_bit (32 - n) x"

definition big_sigma0 :: "u32 \<Rightarrow> u32" where
  "big_sigma0 x = rotr 2 x XOR rotr 13 x XOR rotr 22 x"

definition big_sigma1 :: "u32 \<Rightarrow> u32" where
  "big_sigma1 x = rotr 6 x XOR rotr 11 x XOR rotr 25 x"

definition small_sigma0 :: "u32 \<Rightarrow> u32" where
  "small_sigma0 x = rotr 7 x XOR rotr 18 x XOR drop_bit 3 x"

definition small_sigma1 :: "u32 \<Rightarrow> u32" where
  "small_sigma1 x = rotr 17 x XOR rotr 19 x XOR drop_bit 10 x"

definition sha_ch :: "u32 \<Rightarrow> u32 \<Rightarrow> u32 \<Rightarrow> u32" where
  "sha_ch x y z = (x AND y) XOR (NOT x AND z)"

definition sha_maj :: "u32 \<Rightarrow> u32 \<Rightarrow> u32 \<Rightarrow> u32" where
  "sha_maj x y z = (x AND y) XOR (x AND z) XOR (y AND z)"

definition byte_of_char :: "char \<Rightarrow> u8" where
  "byte_of_char c = of_nat (of_char c)"

definition be64 :: "64 word \<Rightarrow> u8 list" where
  "be64 n = map (\<lambda>i. ucast (drop_bit (8 * (7 - i)) n)) [0..<8]"

definition sha_pad :: "u8 list \<Rightarrow> u8 list" where
  "sha_pad m =
     m @ [0x80] @ replicate ((119 - length m mod 64) mod 64) 0 @ be64 (of_nat (8 * length m))"

definition be32 :: "u8 list \<Rightarrow> u32" where
  "be32 bs = foldl (\<lambda>acc b. push_bit 8 acc OR ucast b) 0 bs"

definition block_words :: "u8 list \<Rightarrow> u32 list" where
  "block_words blk = map (\<lambda>i. be32 (take 4 (drop (4 * i) blk))) [0..<16]"

definition schedule :: "u32 list \<Rightarrow> u32 list" where
  "schedule w16 =
     foldl (\<lambda>w t. w @ [small_sigma1 (w ! (t - 2)) + w ! (t - 7)
                        + small_sigma0 (w ! (t - 15)) + w ! (t - 16)])
       w16 [16..<64]"

definition sha_round :: "u32 list \<Rightarrow> sha_state \<Rightarrow> nat \<Rightarrow> sha_state" where
  "sha_round w s t =
     (let t1 = hh s + big_sigma1 (he s) + sha_ch (he s) (hf s) (hg s) + sha_K ! t + w ! t;
          t2 = big_sigma0 (ha s) + sha_maj (ha s) (hb s) (hc s)
      in \<lparr>ha = t1 + t2, hb = ha s, hc = hb s, hd = hc s,
          he = hd s + t1, hf = he s, hg = hf s, hh = hg s\<rparr>)"

definition compress :: "sha_state \<Rightarrow> u8 list \<Rightarrow> sha_state" where
  "compress s blk =
     (let w = schedule (block_words blk);
          r = foldl (sha_round w) s [0..<64]
      in \<lparr>ha = ha s + ha r, hb = hb s + hb r, hc = hc s + hc r, hd = hd s + hd r,
          he = he s + he r, hf = hf s + hf r, hg = hg s + hg r, hh = hh s + hh r\<rparr>)"

definition sha_blocks :: "u8 list \<Rightarrow> u8 list list" where
  "sha_blocks p = map (\<lambda>i. take 64 (drop (64 * i) p)) [0..<length p div 64]"

definition hex_digit :: "nat \<Rightarrow> char" where
  "hex_digit n = ''0123456789abcdef'' ! n"

definition hex32 :: "u32 \<Rightarrow> string" where
  "hex32 x = map (\<lambda>i. hex_digit (unat (drop_bit (4 * (7 - i)) x AND 15))) [0..<8]"

definition digest_hex :: "sha_state \<Rightarrow> string" where
  "digest_hex s =
     hex32 (ha s) @ hex32 (hb s) @ hex32 (hc s) @ hex32 (hd s)
     @ hex32 (he s) @ hex32 (hf s) @ hex32 (hg s) @ hex32 (hh s)"

definition sha256 :: "string \<Rightarrow> string" where
  "sha256 str = digest_hex (foldl compress sha_init (sha_blocks (sha_pad (map byte_of_char str))))"

section \<open>JavaScript values and the event payload\<close>

text \<open>
  The payload of an outbox row is a JSON object (\<open>jsonb_build_object\<close> in the triggers
  and in \<open>scripts/backfill-outbox.js\<close>). Its fields are scalar JSON values; a field that
  is not there reads as \<open>undefined\<close>. A number is an integer of the range that JavaScript
  prints in plain decimal. \<open>truthy\<close> is the test of \<open>!x\<close> and \<open>x || y\<close>; \<open>to_String\<close> is
  \<open>String(x)\<close>, which a template literal applies too.
\<close>

datatype jsval = JUndefined | JNull | JBool bool | JNum int | JStr string

fun truthy :: "jsval \<Rightarrow> bool" where
  "truthy JUndefined = False"
| "truthy JNull = False"
| "truthy (JBool b) = b"
| "truthy (JNum n) = (n \<noteq> 0)"
| "truthy (JStr s) = (s \<noteq> [])"

definition js_or :: "jsval \<Rightarrow> jsval \<Rightarrow> jsval" where
  "js_or a b = (if truthy a then a else b)"

fun dec_nat :: "nat \<Rightarrow> string" where
  "dec_nat n =
     (if n < 10 then [''0123456789'' ! n]
      else dec_nat (n div 10) @ [''0123456789'' ! (n mod 10)])"

fun to_String :: "jsval \<Rightarrow> string" where
  "to_String JUndefined = ''undefined''"
| "to_String JNull = ''null''"
| "to_String (JBool b) = (if b then ''true'' else ''false'')"
| "to_String (JNum n) = (if n < 0 then ''-'' @ dec_nat (nat (- n)) else dec_nat (nat n))"
| "to_String (JStr s) = s"

type_synonym payload = "(string \<times> jsval) list"

definition field :: "payload \<Rightarrow> string \<Rightarrow> jsval" where
  "field p k = (case map_of p k of None \<Rightarrow> JUndefined | Some v \<Rightarrow> v)"

section \<open>The outbox table\<close>

text \<open>
  \<^verbatim>\<open>
  CREATE TABLE outbox_graph_events (
    id BIGSERIAL PRIMARY KEY, event_type TEXT NOT NULL, payload JSONB NOT NULL,
    occurred_at TIMESTAMPTZ NOT NULL DEFAULT now(), attempts INT NOT NULL DEFAULT 0,
    status TEXT NOT NULL DEFAULT 'pending', -- pending|processing|done|failed
    error TEXT );
  \<close>
  The table is the list of its rows in storage order. \<open>occurred_at\<close> is a point in time,
  an integer.
\<close>

datatype status = Pending | Processing | Done | Failed

record outbox_row =
  ev_id :: int
  event_type :: string
  payload :: payload
  occurred_at :: int
  attempts :: int
  status :: status
  error :: "string option"

type_synonym outbox = "outbox_row list"

text \<open>What a store call or a transformer throws: an \<open>Error\<close> with its name and message.\<close>

datatype exn = Exn string string

fun errorMsg :: "exn \<Rightarrow> string" where
  \<comment> \<open>\<open>String(e?.message || e)\<close>: an empty message prints the error, that is its name\<close>
  "errorMsg (Exn name msg) = (if msg \<noteq> [] then msg else name)"

section \<open>The graph store and Cypher's MERGE\<close>

text \<open>
  A node is found by its label and its \<open>id\<close> property, a relationship by its type, its
  two end nodes and the properties written in the MERGE pattern. The store holds at most
  one node and one relationship under each such key, which is what MERGE keeps up from
  the empty store. \<open>session.run\<close> executes one query as a whole or throws and changes
  nothing; \<open>runs\<close> counts the calls.
\<close>

type_synonym props = "string \<rightharpoonup> jsval"
type_synonym node_key = "string \<times> jsval"
type_synonym rel_key = "string \<times> node_key \<times> node_key \<times> (string \<times> jsval) list"

record graph =
  nodes :: "node_key \<rightharpoonup> props"
  rels :: "rel_key \<rightharpoonup> props"

record session =
  store :: graph
  runs :: nat

definition set_props :: "(string \<times> jsval) list \<Rightarrow> props \<Rightarrow> props" where
  "set_props kvs ps = foldl (\<lambda>m (k, v). m(k \<mapsto> v)) ps kvs"

definition merge_node ::
  "string \<Rightarrow> jsval \<Rightarrow> (string \<times> jsval) list \<Rightarrow> (string \<times> jsval) list \<Rightarrow> graph \<Rightarrow> graph" where
  "merge_node lbl i on_create on_match g =
     (case nodes g (lbl, i) of
        None \<Rightarrow> g\<lparr>nodes := (nodes g)((lbl, i) \<mapsto> set_props ((''id'', i) # on_create) Map.empty)\<rparr>
      | Some ps \<Rightarrow> g\<lparr>nodes := (nodes g)((lbl, i) \<mapsto> set_props on_match ps)\<rparr>)"

definition merge_rel ::
  "string \<Rightarrow> node_key \<Rightarrow> node_key \<Rightarrow> (string \<times> jsval) list \<Rightarrow>
   (string \<times> jsval) list \<Rightarrow> (string \<times> jsval) list \<Rightarrow> graph \<Rightarrow> graph" where
  "merge_rel ty a b ident on_create on_match g =
     (case rels g (ty, a, b, ident) of
        None \<Rightarrow> g\<lparr>rels := (rels g)((ty, a, b, ident) \<mapsto> set_props (ident @ on_create) Map.empty)\<rparr>
      | Some ps \<Rightarrow> g\<lparr>rels := (rels g)((ty, a, b, ident) \<mapsto> set_props on_match ps)\<rparr>)"

definition session_run :: "exn option \<Rightarrow> (graph \<Rightarrow> graph) \<Rightarrow> session \<Rightarrow> exn option \<times> session" where
  "session_run fault cypher s =
     (case fault of
        Some e \<Rightarrow> (Some e, s\<lparr>runs := Suc (runs s)\<rparr>)
      | None \<Rightarrow> (None, \<lparr>store = cypher (store s), runs = Suc (runs s)\<rparr>))"

text \<open>
  What the outside world gives while one record is processed: the reading of
  \<open>new Date().toISOString()\<close>, whether the graph store throws on \<open>session.run\<close>, and
  whether the relational store throws on the two write-back queries.
\<close>

record env =
  clock :: string
  graph_fault :: "exn option"
  done_fault :: "exn option"
  fail_fault :: "exn option"

section \<open>The transformers\<close>

definition triple_cypher ::
  "jsval \<Rightarrow> jsval \<Rightarrow> jsval \<Rightarrow> jsval \<Rightarrow> jsval \<Rightarrow> jsval \<Rightarrow> graph \<Rightarrow> graph" where
  "triple_cypher sid oid subject object predicate now g =
     merge_rel ''ASSERTS'' (''Entity'', sid) (''Entity'', oid) [(''predicate'', predicate)]
       [(''created_at'', now)] [(''updated_at'', now)]
       (merge_node ''Entity'' oid [(''name'', object), (''created_at'', now)] []
         (merge_node ''Entity'' sid [(''name'', subject), (''created_at'', now)] [] g))"

definition processTriple :: "env \<Rightarrow> outbox_row \<Rightarrow> session \<Rightarrow> exn option \<times> session" where
  "processTriple e ev s =
     (let subject = field (payload ev) ''subject'';
          predicate = field (payload ev) ''predicate'';
          object = field (payload ev) ''object'';
          created_at = field (payload ev) ''created_at''
      in if \<not> truthy subject \<or> \<not> truthy predicate \<or> \<not> truthy object
         then (Some (Exn ''Error'' ''Missing required triple fields''), s)
         else
           let sid = JStr (sha256 (to_String subject));
               oid = JStr (sha256 (to_String object));
               now = js_or created_at (JStr (clock e))
           in session_run (graph_fault e) (triple_cypher sid oid subject object predicate now) s)"

definition factlet_cypher ::
  "jsval \<Rightarrow> jsval \<Rightarrow> jsval \<Rightarrow> jsval \<Rightarrow> jsval \<Rightarrow> jsval \<Rightarrow> graph \<Rightarrow> graph" where
  "factlet_cypher factletId croutonId text pageId sourceUrl now g =
     merge_rel ''FROM_PAGE'' (''Factlet'', factletId) (''WebPage'', pageId) [] [] []
       (merge_node ''WebPage'' pageId [(''url'', sourceUrl), (''created_at'', now)] []
         (merge_node ''Factlet'' factletId
            [(''fact_id'', croutonId), (''claim'', text), (''created_at'', now)] [] g))"

definition processFactlet :: "env \<Rightarrow> outbox_row \<Rightarrow> session \<Rightarrow> exn option \<times> session" where
  "processFactlet e ev s =
     (let crouton_id = field (payload ev) ''crouton_id'';
          source_url = field (payload ev) ''source_url'';
          text = field (payload ev) ''text'';
          created_at = field (payload ev) ''created_at''
      in if \<not> truthy crouton_id \<or> \<not> truthy source_url
         then (Some (Exn ''Error'' ''Missing required factlet fields''), s)
         else
           let factletId = JStr (sha256 (to_String crouton_id));
               pageId = JStr (sha256 (to_String source_url));
               now = js_or created_at (JStr (clock e))
           in session_run (graph_fault e)
                (factlet_cypher factletId crouton_id (js_or text (JStr [])) pageId source_url now) s)"

text \<open>The parameters of the participation query, as \<open>session.run\<close> receives them.\<close>

record participation_params =
  participationId :: jsval
  domainId :: jsval
  croutonId :: jsval
  sourceDomain :: jsval
  aiReadableSource :: jsval
  markdownDiscovered :: jsval
  discoveryMethod :: jsval
  firstObserved :: jsval
  lastVerified :: jsval
  now :: jsval

definition participation_cypher :: "participation_params \<Rightarrow> graph \<Rightarrow> graph" where
  "participation_cypher q g =
     merge_rel ''TRACKS_CROUTON'' (''SourceParticipation'', participationId q)
         (''Crouton'', croutonId q) [] [] []
       (merge_rel ''HAS_PARTICIPATION'' (''SourceDomain'', domainId q)
           (''SourceParticipation'', participationId q) [] [] []
         (merge_node ''SourceParticipation'' (participationId q)
            [(''ai_readable_source'', aiReadableSource q),
             (''markdown_discovered'', markdownDiscovered q),
             (''discovery_method'', discoveryMethod q),
             (''first_observed'', firstObserved q),
             (''last_verified'', lastVerified q),
             (''created_at'', now q)]
            [(''last_verified'', lastVerified q), (''updated_at'', now q)]
           (merge_node ''Crouton'' (croutonId q) [(''created_at'', now q)] []
             (merge_node ''SourceDomain'' (domainId q)
                [(''name'', sourceDomain q), (''created_at'', now q)] [] g))))"

definition participation_query_params :: "env \<Rightarrow> outbox_row \<Rightarrow> participation_params" where
  "participation_query_params e ev =
     (let crouton_id = field (payload ev) ''crouton_id'';
          source_domain = field (payload ev) ''source_domain'';
          source_url = field (payload ev) ''source_url'';
          ai_readable_source = field (payload ev) ''ai_readable_source'';
          markdown_discovered = field (payload ev) ''markdown_discovered'';
          discovery_method = field (payload ev) ''discovery_method'';
          first_observed = field (payload ev) ''first_observed'';
          last_verified = field (payload ev) ''last_verified'';
          now = js_or first_observed (JStr (clock e))
      in \<lparr>participationId = JStr (sha256 (to_String crouton_id @ '':'' @ to_String source_url)),
          domainId = JStr (sha256 (to_String source_domain)),
          croutonId = crouton_id,
          sourceDomain = source_domain,
          aiReadableSource = js_or ai_readable_source (JBool False),
          markdownDiscovered = js_or markdown_discovered (JBool False),
          discoveryMethod = js_or discovery_method (JStr ''unknown''),
          firstObserved = js_or first_observed now,
          lastVerified = js_or last_verified now,
          now = now\<rparr>)"

definition processSourceParticipation :: "env \<Rightarrow> outbox_row \<Rightarrow> session \<Rightarrow> exn option \<times> session" where
  "processSourceParticipation e ev s =
     (if \<not> truthy (field (payload ev) ''crouton_id'')
         \<or> \<not> truthy (field (payload ev) ''source_domain'')
         \<or> \<not> truthy (field (payload ev) ''source_url'')
      then (Some (Exn ''Error'' ''Missing required source participation fields''), s)
      else session_run (graph_fault e) (participation_cypher (participation_query_params e ev)) s)"

section \<open>Configuration\<close>

text \<open>
  \<^verbatim>\<open>
  const BATCH_SIZE = parseInt(process.env.BATCH_SIZE || "500", 10);
  const POLL_INTERVAL_MS = parseInt(process.env.POLL_INTERVAL_MS || "2000", 10);
  \<close>
  \<open>process.env\<close> is a map from names to strings. \<open>parseInt\<close> skips leading blanks,
  reads a sign and the decimal digits that follow; \<open>None\<close> is \<open>NaN\<close>.
\<close>

type_synonym process_env = "string \<rightharpoonup> string"

definition is_digit :: "char \<Rightarrow> bool" where
  "is_digit c = (c \<in> set ''0123456789'')"

definition digit_val :: "char \<Rightarrow> nat" where
  "digit_val c = of_char c - 48"

definition parseInt :: "string \<Rightarrow> int option" where
  "parseInt str =
     (let t = dropWhile (\<lambda>c. c \<in> set [CHR '' '', CHR 0x09, CHR 0x0A, CHR 0x0D]) str;
          neg = (case t of [] \<Rightarrow> False | c # _ \<Rightarrow> c = CHR ''-'');
          u = (case t of [] \<Rightarrow> [] | c # r \<Rightarrow> if c = CHR ''-'' \<or> c = CHR ''+'' then r else t);
          ds = takeWhile is_digit u
      in if ds = [] then None
         else let n = int (foldl (\<lambda>a c. 10 * a + digit_val c) 0 ds)
              in Some (if neg then - n else n))"

definition env_or :: "process_env \<Rightarrow> string \<Rightarrow> string \<Rightarrow> string" where
  \<comment> \<open>\<open>process.env.NAME || dflt\<close>: an unset or empty variable gives the default\<close>
  "env_or penv name dflt = (case penv name of None \<Rightarrow> dflt | Some v \<Rightarrow> if v = [] then dflt else v)"

definition BATCH_SIZE :: "process_env \<Rightarrow> int option" where
  "BATCH_SIZE penv = parseInt (env_or penv ''BATCH_SIZE'' ''500'')"

definition POLL_INTERVAL_MS :: "process_env \<Rightarrow> int option" where
  "POLL_INTERVAL_MS penv = parseInt (env_or penv ''POLL_INTERVAL_MS'' ''2000'')"

section \<open>Claiming a batch\<close>

text \<open>
  \<^verbatim>\<open>
  UPDATE outbox_graph_events SET status='processing'
  WHERE id IN (SELECT id FROM outbox_graph_events WHERE status='pending'
               ORDER BY occurred_at ASC LIMIT $1 FOR UPDATE SKIP LOCKED)
  RETURNING *
  \<close>
  The subquery gives the ids of the first \<open>$1\<close> pending rows by \<open>occurred_at\<close>. The
  UPDATE goes through the table, changes the rows whose id is among them, and RETURNING
  gives the changed rows as the UPDATE reaches them: the ORDER BY belongs to the
  subquery, whose result is only tested for membership. One caller is modelled, so no
  row is locked by another. A fault of the store, a limit that is \<open>NaN\<close> and a negative
  limit make the query throw.
\<close>

definition claim_ids :: "nat \<Rightarrow> outbox \<Rightarrow> int list" where
  "claim_ids n tbl = map ev_id (take n (sort_key occurred_at (filter (\<lambda>r. status r = Pending) tbl)))"

definition claimBatch ::
  "exn option \<Rightarrow> int option \<Rightarrow> outbox \<Rightarrow> exn + (outbox_row list \<times> outbox)" where
  "claimBatch fault limit tbl =
     (case fault of
        Some e \<Rightarrow> Inl e
      | None \<Rightarrow>
         (case limit of
            None \<Rightarrow> Inl (Exn ''error'' ''invalid input syntax for type bigint: NaN'')
          | Some n \<Rightarrow>
              if n < 0 then Inl (Exn ''error'' ''LIMIT must not be negative'')
              else
                let ids = claim_ids (nat n) tbl;
                    tbl' = map (\<lambda>r. if ev_id r \<in> set ids then r\<lparr>status := Processing\<rparr> else r) tbl;
                    rows = filter (\<lambda>r. ev_id r \<in> set ids) tbl'
                in Inr (rows, tbl')))"

section \<open>The worker\<close>

record world =
  outbox :: outbox
  neo :: session

definition dispatch :: "env \<Rightarrow> outbox_row \<Rightarrow> session \<Rightarrow> exn option \<times> session" where
  "dispatch e ev s =
     (if event_type ev = ''triple.insert'' then processTriple e ev s
      else if event_type ev = ''factlet.insert'' then processFactlet e ev s
      else if event_type ev = ''source_participation.insert'' then processSourceParticipation e ev s
      else (None, s))"

definition mark_done :: "int \<Rightarrow> outbox \<Rightarrow> outbox" where
  \<comment> \<open>\<open>UPDATE outbox_graph_events SET status='done', attempts=attempts+1 WHERE id=$1\<close>\<close>
  "mark_done i tbl =
     map (\<lambda>r. if ev_id r = i then r\<lparr>status := Done, attempts := attempts r + 1\<rparr> else r) tbl"

definition mark_outcome :: "int \<Rightarrow> status \<Rightarrow> string \<Rightarrow> int \<Rightarrow> outbox \<Rightarrow> outbox" where
  \<comment> \<open>\<open>UPDATE outbox_graph_events SET attempts=$1, status=$2, error=$3 WHERE id=$4\<close>\<close>
  "mark_outcome newAttempts newStatus msg i tbl =
     map (\<lambda>r. if ev_id r = i
              then r\<lparr>attempts := newAttempts, status := newStatus, error := Some msg\<rparr> else r) tbl"

definition on_catch :: "env \<Rightarrow> outbox_row \<Rightarrow> exn \<Rightarrow> outbox \<Rightarrow> exn option \<times> outbox" where
  "on_catch e ev x tbl =
     (let msg = errorMsg x;
          newAttempts = attempts ev + 1;
          newStatus = (if newAttempts \<ge> 5 then Failed else Pending)
      in case fail_fault e of
           Some y \<Rightarrow> (Some y, tbl)
         | None \<Rightarrow> (None, mark_outcome newAttempts newStatus msg (ev_id ev) tbl))"

text \<open>
  The body of \<open>for (const ev of batch)\<close>. The first component of the result is an
  exception that leaves the loop (the write-back in the \<open>catch\<close> block threw). The
  counters \<open>processedTotal\<close> and \<open>failedTotal\<close> are only printed and are left out, as
  is the console output.
\<close>

definition process_event :: "env \<Rightarrow> outbox_row \<Rightarrow> world \<Rightarrow> exn option \<times> world" where
  "process_event e ev w =
     (case dispatch e ev (neo w) of
        (None, s') \<Rightarrow>
          (case done_fault e of
             None \<Rightarrow> (None, \<lparr>outbox = mark_done (ev_id ev) (outbox w), neo = s'\<rparr>)
           | Some x \<Rightarrow>
               (case on_catch e ev x (outbox w) of (y, tbl') \<Rightarrow> (y, \<lparr>outbox = tbl', neo = s'\<rparr>)))
      | (Some x, s') \<Rightarrow>
          (case on_catch e ev x (outbox w) of (y, tbl') \<Rightarrow> (y, \<lparr>outbox = tbl', neo = s'\<rparr>)))"

fun process_batch :: "(int \<Rightarrow> env) \<Rightarrow> outbox_row list \<Rightarrow> world \<Rightarrow> exn option \<times> world" where
  "process_batch envs [] w = (None, w)"
| "process_batch envs (ev # evs) w =
     (case process_event (envs (ev_id ev)) ev w of
        (None, w') \<Rightarrow> process_batch envs evs w'
      | (Some x, w') \<Rightarrow> (Some x, w'))"

text \<open>
  One turn of \<open>while (true)\<close>. The input of a turn is whether the claim query throws
  and, for each record by id, the \<open>env\<close> under which it is processed. An exception of the
  claim or of the batch is logged by the outer \<open>catch\<close>; sleeping changes no state.
\<close>

record cycle_in =
  claim_fault :: "exn option"
  envs :: "int \<Rightarrow> env"

definition worker_cycle :: "process_env \<Rightarrow> cycle_in \<Rightarrow> world \<Rightarrow> world" where
  "worker_cycle penv c w =
     (case claimBatch (claim_fault c) (BATCH_SIZE penv) (outbox w) of
        Inl x \<Rightarrow> w
      | Inr (batch, tbl') \<Rightarrow>
          if length batch = 0 then w\<lparr>outbox := tbl'\<rparr>
          else snd (process_batch (envs c) batch (w\<lparr>outbox := tbl'\<rparr>)))"

fun worker_cycles :: "process_env \<Rightarrow> cycle_in list \<Rightarrow> world \<Rightarrow> world" where
  "worker_cycles penv [] w = w"
| "worker_cycles penv (c # cs) w = worker_cycles penv cs (worker_cycle penv c w)"

section \<open>Notions used to state the properties\<close>

text \<open>
  The validation of the three transformers, read off their first \<open>if\<close>: a required
  field that is falsy makes the transformer throw.
\<close>

definition missing_required :: "outbox_row \<Rightarrow> bool" where
  "missing_required ev =
     (if event_type ev = ''triple.insert''
      then \<not> truthy (field (payload ev) ''subject'') \<or> \<not> truthy (field (payload ev) ''predicate'')
           \<or> \<not> truthy (field (payload ev) ''object'')
      else if event_type ev = ''factlet.insert''
      then \<not> truthy (field (payload ev) ''crouton_id'') \<or> \<not> truthy (field (payload ev) ''source_url'')
      else if event_type ev = ''source_participation.insert''
      then \<not> truthy (field (payload ev) ''crouton_id'') \<or> \<not> truthy (field (payload ev) ''source_domain'')
           \<or> \<not> truthy (field (payload ev) ''source_url'')
      else False)"

text \<open>Applying the transformer of an event again and again, each time under its own \<open>env\<close>.\<close>

fun apply_times :: "env list \<Rightarrow> outbox_row \<Rightarrow> session \<Rightarrow> exn option \<times> session" where
  "apply_times [] ev s = (None, s)"
| "apply_times (e # es) ev s =
     (case dispatch e ev s of
        (None, s') \<Rightarrow> apply_times es ev s'
      | (Some x, s') \<Rightarrow> (Some x, s'))"

text \<open>
  The graph without the "last observed" fields of an event: \<open>updated_at\<close> on the ASSERTS
  relationship of a triple, \<open>last_verified\<close> and \<open>updated_at\<close> on the participation node.
\<close>

definition drop_props :: "string list \<Rightarrow> props \<Rightarrow> props" where
  "drop_props ks ps = (\<lambda>k. if k \<in> set ks then None else ps k)"

definition forget_last_observed :: "outbox_row \<Rightarrow> graph \<Rightarrow> graph" where
  "forget_last_observed ev g =
     (if event_type ev = ''triple.insert'' then
        let key = (''ASSERTS'',
                   (''Entity'', JStr (sha256 (to_String (field (payload ev) ''subject'')))),
                   (''Entity'', JStr (sha256 (to_String (field (payload ev) ''object'')))),
                   [(''predicate'', field (payload ev) ''predicate'')])
        in g\<lparr>rels := (rels g)(key := map_option (drop_props [''updated_at'']) (rels g key))\<rparr>
      else if event_type ev = ''source_participation.insert'' then
        let key = (''SourceParticipation'',
                   JStr (sha256 (to_String (field (payload ev) ''crouton_id'') @ '':''
                                 @ to_String (field (payload ev) ''source_url''))))
        in g\<lparr>nodes := (nodes g)(key := map_option (drop_props [''last_verified'', ''updated_at''])
                                         (nodes g key))\<rparr>
      else g)"

text \<open>The nodes and relationships that the query of an event merges are in the graph.\<close>

definition pattern_present :: "outbox_row \<Rightarrow> graph \<Rightarrow> bool" where
  "pattern_present ev g =
     (if event_type ev = ''triple.insert'' then
        let a = (''Entity'', JStr (sha256 (to_String (field (payload ev) ''subject''))));
            b = (''Entity'', JStr (sha256 (to_String (field (payload ev) ''object''))))
        in nodes g a \<noteq> None \<and> nodes g b \<noteq> None
           \<and> rels g (''ASSERTS'', a, b, [(''predicate'', field (payload ev) ''predicate'')]) \<noteq> None
      else if event_type ev = ''factlet.insert'' then
        let f = (''Factlet'', JStr (sha256 (to_String (field (payload ev) ''crouton_id''))));
            w = (''WebPage'', JStr (sha256 (to_String (field (payload ev) ''source_url''))))
        in nodes g f \<noteq> None \<and> nodes g w \<noteq> None \<and> rels g (''FROM_PAGE'', f, w, []) \<noteq> None
      else if event_type ev = ''source_participation.insert'' then
        let sd = (''SourceDomain'', JStr (sha256 (to_String (field (payload ev) ''source_domain''))));
            c = (''Crouton'', field (payload ev) ''crouton_id'');
            sp = (''SourceParticipation'',
                  JStr (sha256 (to_String (field (payload ev) ''crouton_id'') @ '':''
                                @ to_String (field (payload ev) ''source_url''))))
        in nodes g sd \<noteq> None \<and> nodes g c \<noteq> None \<and> nodes g sp \<noteq> None
           \<and> rels g (''HAS_PARTICIPATION'', sd, sp, []) \<noteq> None
           \<and> rels g (''TRACKS_CROUTON'', sp, c, []) \<noteq> None
      else True)"

text \<open>
  The required fields of each kind, as the specification lists them, and a field that is
  absent or the empty string.
\<close>

definition required_fields :: "string \<Rightarrow> string list" where
  "required_fields kind =
     (if kind = ''triple.insert'' then [''subject'', ''predicate'', ''object'']
      else if kind = ''factlet.insert'' then [''crouton_id'', ''source_url'']
      else if kind = ''source_participation.insert''
      then [''crouton_id'', ''source_domain'', ''source_url'']
      else [])"

definition absent_or_empty :: "jsval \<Rightarrow> bool" where
  "absent_or_empty v = (v = JUndefined \<or> v = JStr [])"

definition recognized :: "string \<Rightarrow> bool" where
  "recognized kind =
     (kind = ''triple.insert'' \<or> kind = ''factlet.insert'' \<or> kind = ''source_participation.insert'')"

text \<open>The transformer of the event throws: its validation fails, or the graph store does.\<close>

definition throws :: "env \<Rightarrow> outbox_row \<Rightarrow> bool" where
  "throws e ev = (missing_required ev \<or> (recognized (event_type ev) \<and> graph_fault e \<noteq> None))"

text \<open>Inputs for the examples.\<close>

definition env_ok :: "string \<Rightarrow> env" where
  "env_ok t = \<lparr>clock = t, graph_fault = None, done_fault = None, fail_fault = None\<rparr>"

definition no_graph :: session where
  "no_graph = \<lparr>store = \<lparr>nodes = Map.empty, rels = Map.empty\<rparr>, runs = 0\<rparr>"

definition triple_AB :: outbox_row where
  "triple_AB = \<lparr>ev_id = 1, event_type = ''triple.insert'',
     payload = [(''subject'', JStr ''A''), (''predicate'', JStr ''knows''), (''object'', JStr ''B'')],
     occurred_at = 10, attempts = 0, status = Processing, error = None\<rparr>"

definition triple_no_subject :: outbox_row where
  "triple_no_subject = \<lparr>ev_id = 7, event_type = ''triple.insert'',
     payload = [(''subject'', JStr []), (''predicate'', JStr ''knows''), (''object'', JStr ''B'')],
     occurred_at = 10, attempts = 4, status = Processing, error = Some ''Missing required triple fields''\<rparr>"

definition triple_retried :: outbox_row where
  "triple_retried = \<lparr>ev_id = 3, event_type = ''triple.insert'',
     payload = [(''subject'', JStr ''A''), (''predicate'', JStr ''knows''), (''object'', JStr ''B'')],
     occurred_at = 10, attempts = 1, status = Processing, error = Some ''connection refused''\<rparr>"

definition future_kind :: outbox_row where
  "future_kind = \<lparr>ev_id = 9, event_type = ''unknown.future_kind'', payload = [],
     occurred_at = 10, attempts = 0, status = Processing, error = None\<rparr>"

definition participation_min :: outbox_row where
  "participation_min = \<lparr>ev_id = 4, event_type = ''source_participation.insert'',
     payload = [(''crouton_id'', JStr ''c1''), (''source_domain'', JStr ''example.org''),
                (''source_url'', JStr ''https://example.org/a'')],
     occurred_at = 10, attempts = 0, status = Processing, error = None\<rparr>"

definition dead_letter :: outbox_row where
  "dead_letter = \<lparr>ev_id = 5, event_type = ''triple.insert'', payload = [],
     occurred_at = 10, attempts = 5, status = Failed, error = Some ''Missing required triple fields''\<rparr>"

definition triple_empty :: "int \<Rightarrow> outbox_row" where
  \<comment> \<open>a pending triple event with no field at all, after \<open>a\<close> attempts\<close>
  "triple_empty a = \<lparr>ev_id = 6, event_type = ''triple.insert'', payload = [],
     occurred_at = 10, attempts = a, status = Pending, error = None\<rparr>"

definition calm :: cycle_in where
  \<comment> \<open>a turn in which no store throws\<close>
  "calm = \<lparr>claim_fault = None, envs = (\<lambda>i. env_ok ''2025-11-01T00:00:00.000Z'')\<rparr>"

definition env_max_attempts_3 :: process_env where
  "env_max_attempts_3 = [''MAX_ATTEMPTS'' \<mapsto> ''3'']"

text \<open>
  Two pending events about the same crouton. The first row of the table was written by
  the trigger at time 20; the second was written after it by the backfill, which stamps
  a row with the time its crouton was created, here 10.
\<close>

definition factlet_late :: outbox_row where
  "factlet_late = \<lparr>ev_id = 1, event_type = ''factlet.insert'',
     payload = [(''crouton_id'', JStr ''c1''), (''source_url'', JStr ''https://example.org/a''),
                (''text'', JStr ''second wording''), (''created_at'', JStr ''2025-01-20'')],
     occurred_at = 20, attempts = 0, status = Pending, error = None\<rparr>"

definition factlet_early :: outbox_row where
  "factlet_early = \<lparr>ev_id = 2, event_type = ''factlet.insert'',
     payload = [(''crouton_id'', JStr ''c1''), (''source_url'', JStr ''https://example.org/a''),
                (''text'', JStr ''first wording''), (''created_at'', JStr ''2025-01-10'')],
     occurred_at = 10, attempts = 0, status = Pending, error = None\<rparr>"

section \<open>The fingerprint is a hex digest of 256 bits\<close>

lemma length_hex32: "length (hex32 x) = 8"
  by (simp add: hex32_def)

lemma nibble_bound: "unat ((y :: u32) AND 15) < 16"
proof -
  have "y AND 15 \<le> 15" by (rule word_and_le1)
  then have "unat (y AND 15) \<le> unat (15 :: u32)" by (simp add: word_le_nat_alt)
  then show ?thesis by simp
qed

lemma hex_digit_range: "n < 16 \<Longrightarrow> hex_digit n \<in> set ''0123456789abcdef''"
  unfolding hex_digit_def by (rule nth_mem) simp

lemma set_hex32: "set (hex32 x) \<subseteq> set ''0123456789abcdef''"
  unfolding hex32_def using hex_digit_range [OF nibble_bound] by auto

lemma length_digest_hex: "length (digest_hex st) = 64"
  by (simp add: digest_hex_def length_hex32)

lemma set_digest_hex: "set (digest_hex st) \<subseteq> set ''0123456789abcdef''"
  unfolding digest_hex_def using set_hex32 by (simp del: set_simps)

text \<open>The model computes the digests of FIPS 180-4's first example.\<close>

lemma sha256_abc:
  "sha256 ''abc'' = ''ba7816bf8f01cfea414140de5dae2223b00361a396177a9cb410ff61f20015ad''"
  by code_simp

text \<open>
  Claim C9. The fingerprint is a function of the content of its input alone: \<open>sha256\<close>
  takes the string and nothing else, no salt, no clock, no \<open>process.env\<close>, so two calls
  on the same input give the same digest. The digest is 64 characters long and each of
  them is a lower-case hexadecimal digit, that is 256 bits.
\<close>

theorem sha256_hex_digest:
  "length (sha256 x) = 64 \<and> set (sha256 x) \<subseteq> set ''0123456789abcdef''"
  unfolding sha256_def using length_digest_hex set_digest_hex by blast

theorem sha256_hex_digest_witness:
  "length (sha256 ''abc'') = 64 \<and> set (sha256 ''abc'') \<subseteq> set ''0123456789abcdef''"
  by (rule sha256_hex_digest)

section \<open>MERGE applied twice\<close>

lemma set_props_Nil: "set_props [] ps = ps"
  by (simp add: set_props_def)

lemma merge_node_rels: "rels (merge_node l i oc om g) = rels g"
  by (simp add: merge_node_def split: option.splits)

lemma merge_rel_nodes: "nodes (merge_rel t a b idn oc om g) = nodes g"
  by (simp add: merge_rel_def split: option.splits)

lemma merge_node_keeps: "nodes g k \<noteq> None \<Longrightarrow> nodes (merge_node l i oc om g) k \<noteq> None"
  by (simp add: merge_node_def split: option.splits)

lemma merge_node_self: "nodes (merge_node l i oc om g) (l, i) \<noteq> None"
  by (simp add: merge_node_def split: option.splits)

lemma merge_rel_keeps: "rels g k \<noteq> None \<Longrightarrow> rels (merge_rel t a b idn oc om g) k \<noteq> None"
  by (simp add: merge_rel_def split: option.splits)

lemma merge_rel_self: "rels (merge_rel t a b idn oc om g) (t, a, b, idn) \<noteq> None"
  by (simp add: merge_rel_def split: option.splits)

lemma merge_node_idle: "nodes g (l, i) \<noteq> None \<Longrightarrow> merge_node l i oc [] g = g"
  by (auto simp add: merge_node_def set_props_Nil fun_upd_idem split: option.splits)

lemma merge_rel_idle: "rels g (t, a, b, idn) \<noteq> None \<Longrightarrow> merge_rel t a b idn oc [] g = g"
  by (auto simp add: merge_rel_def set_props_Nil fun_upd_idem split: option.splits)

lemma merge_node_touch:
  "nodes g (l, i) = Some ps \<Longrightarrow>
   merge_node l i oc om g = g\<lparr>nodes := (nodes g)((l, i) \<mapsto> set_props om ps)\<rparr>"
  by (simp add: merge_node_def)

lemma merge_rel_touch:
  "rels g (t, a, b, idn) = Some ps \<Longrightarrow>
   merge_rel t a b idn oc om g = g\<lparr>rels := (rels g)((t, a, b, idn) \<mapsto> set_props om ps)\<rparr>"
  by (simp add: merge_rel_def)

lemma drop_props_set_props:
  "set (map fst kvs) \<subseteq> set ks \<Longrightarrow> drop_props ks (set_props kvs ps) = drop_props ks ps"
proof (induction kvs arbitrary: ps)
  case Nil
  then show ?case by (simp add: set_props_def)
next
  case (Cons kv kvs)
  obtain k v where kv: "kv = (k, v)" by (cases kv)
  have "drop_props ks (set_props (kv # kvs) ps) = drop_props ks (set_props kvs (ps(k \<mapsto> v)))"
    by (simp add: set_props_def kv)
  also have "\<dots> = drop_props ks (ps(k \<mapsto> v))"
    using Cons by simp
  also have "\<dots> = drop_props ks ps"
    using Cons.prems by (auto simp add: drop_props_def kv fun_eq_iff)
  finally show ?case .
qed

lemma triple_cypher_settles:
  "nodes (triple_cypher sid oid su ob pr n g) (''Entity'', sid) \<noteq> None \<and>
   nodes (triple_cypher sid oid su ob pr n g) (''Entity'', oid) \<noteq> None \<and>
   rels (triple_cypher sid oid su ob pr n g)
     (''ASSERTS'', (''Entity'', sid), (''Entity'', oid), [(''predicate'', pr)]) \<noteq> None"
  unfolding triple_cypher_def
  by (simp add: merge_rel_nodes merge_rel_self merge_node_self merge_node_keeps)

lemma triple_cypher_settled:
  assumes "nodes g (''Entity'', sid) \<noteq> None" "nodes g (''Entity'', oid) \<noteq> None"
    and "rels g (''ASSERTS'', (''Entity'', sid), (''Entity'', oid), [(''predicate'', pr)]) = Some ps"
  shows "triple_cypher sid oid su ob pr n g =
     g\<lparr>rels := (rels g)((''ASSERTS'', (''Entity'', sid), (''Entity'', oid), [(''predicate'', pr)])
         \<mapsto> set_props [(''updated_at'', n)] ps)\<rparr>"
  unfolding triple_cypher_def using assms
  by (simp add: merge_node_idle merge_rel_touch)


lemma factlet_cypher_settles:
  "nodes (factlet_cypher fid cid tx pid url n g) (''Factlet'', fid) \<noteq> None \<and>
   nodes (factlet_cypher fid cid tx pid url n g) (''WebPage'', pid) \<noteq> None \<and>
   rels (factlet_cypher fid cid tx pid url n g)
     (''FROM_PAGE'', (''Factlet'', fid), (''WebPage'', pid), []) \<noteq> None"
  unfolding factlet_cypher_def
  by (simp add: merge_rel_nodes merge_rel_self merge_node_self merge_node_keeps)

lemma factlet_cypher_settled:
  assumes "nodes g (''Factlet'', fid) \<noteq> None" "nodes g (''WebPage'', pid) \<noteq> None"
    and "rels g (''FROM_PAGE'', (''Factlet'', fid), (''WebPage'', pid), []) \<noteq> None"
  shows "factlet_cypher fid cid tx pid url n g = g"
  unfolding factlet_cypher_def using assms
  by (simp add: merge_node_idle merge_rel_idle)

lemma participation_cypher_settles:
  "nodes (participation_cypher q g) (''SourceDomain'', domainId q) \<noteq> None \<and>
   nodes (participation_cypher q g) (''Crouton'', croutonId q) \<noteq> None \<and>
   nodes (participation_cypher q g) (''SourceParticipation'', participationId q) \<noteq> None \<and>
   rels (participation_cypher q g)
     (''HAS_PARTICIPATION'', (''SourceDomain'', domainId q),
      (''SourceParticipation'', participationId q), []) \<noteq> None \<and>
   rels (participation_cypher q g)
     (''TRACKS_CROUTON'', (''SourceParticipation'', participationId q),
      (''Crouton'', croutonId q), []) \<noteq> None"
  unfolding participation_cypher_def
  by (simp add: merge_rel_nodes merge_rel_self merge_rel_keeps merge_node_self merge_node_keeps)

lemma participation_cypher_settled:
  assumes "nodes g (''SourceDomain'', domainId q) \<noteq> None"
    and "nodes g (''Crouton'', croutonId q) \<noteq> None"
    and "nodes g (''SourceParticipation'', participationId q) = Some ps"
    and "rels g (''HAS_PARTICIPATION'', (''SourceDomain'', domainId q),
           (''SourceParticipation'', participationId q), []) \<noteq> None"
    and "rels g (''TRACKS_CROUTON'', (''SourceParticipation'', participationId q),
           (''Crouton'', croutonId q), []) \<noteq> None"
  shows "participation_cypher q g =
     g\<lparr>nodes := (nodes g)((''SourceParticipation'', participationId q)
         \<mapsto> set_props [(''last_verified'', lastVerified q), (''updated_at'', now q)] ps)\<rparr>"
proof -
  let ?g1 = "merge_node ''SourceDomain'' (domainId q)
                [(''name'', sourceDomain q), (''created_at'', now q)] [] g"
  have g1: "?g1 = g" using assms(1) by (rule merge_node_idle)
  let ?g2 = "merge_node ''Crouton'' (croutonId q) [(''created_at'', now q)] [] g"
  have g2: "?g2 = g" using assms(2) by (rule merge_node_idle)
  let ?g3 = "g\<lparr>nodes := (nodes g)((''SourceParticipation'', participationId q)
         \<mapsto> set_props [(''last_verified'', lastVerified q), (''updated_at'', now q)] ps)\<rparr>"
  have r3: "rels ?g3 = rels g" by simp
  show ?thesis
    unfolding participation_cypher_def g1 g2 merge_node_touch [OF assms(3)]
    using assms(4,5) by (simp add: merge_rel_idle)
qed

lemma dispatch_first:
  assumes "\<not> missing_required ev" "graph_fault e = None"
  shows "fst (dispatch e ev s) = None \<and> pattern_present ev (store (snd (dispatch e ev s)))"
proof -
  consider (t) "event_type ev = ''triple.insert''" | (f) "event_type ev = ''factlet.insert''"
    | (p) "event_type ev = ''source_participation.insert''"
    | (u) "event_type ev \<noteq> ''triple.insert''" "event_type ev \<noteq> ''factlet.insert''"
        "event_type ev \<noteq> ''source_participation.insert''"
    by blast
  then show ?thesis
  proof cases
    case t
    with assms show ?thesis
      by (simp add: dispatch_def missing_required_def processTriple_def session_run_def Let_def
          pattern_present_def triple_cypher_settles del: not_None_eq)
  next
    case f
    with assms show ?thesis
      by (simp add: dispatch_def missing_required_def processFactlet_def session_run_def Let_def
          pattern_present_def factlet_cypher_settles del: not_None_eq)
  next
    case p
    have q: "participationId (participation_query_params e ev) =
               JStr (sha256 (to_String (field (payload ev) ''crouton_id'') @ '':''
                             @ to_String (field (payload ev) ''source_url'')))"
      "domainId (participation_query_params e ev) =
               JStr (sha256 (to_String (field (payload ev) ''source_domain'')))"
      "croutonId (participation_query_params e ev) = field (payload ev) ''crouton_id''"
      by (simp_all add: participation_query_params_def Let_def)
    from p assms show ?thesis
      using participation_cypher_settles [of "participation_query_params e ev" "store s"]
      by (simp add: dispatch_def missing_required_def processSourceParticipation_def
          session_run_def pattern_present_def Let_def q del: not_None_eq)
  next
    case u
    then show ?thesis by (simp add: dispatch_def pattern_present_def)
  qed
qed


lemma forget_rel_touch:
  assumes "rels g k = Some ps" "set (map fst om) \<subseteq> set ks"
  shows "(rels g)(k \<mapsto> drop_props ks (set_props om ps)) = (rels g)(k \<mapsto> drop_props ks ps)"
  using assms by (simp add: drop_props_set_props)

lemma dispatch_again:
  assumes "\<not> missing_required ev" "graph_fault e = None" "pattern_present ev (store s)"
  shows "forget_last_observed ev (store (snd (dispatch e ev s))) = forget_last_observed ev (store s)"
proof -
  consider (t) "event_type ev = ''triple.insert''" | (f) "event_type ev = ''factlet.insert''"
    | (p) "event_type ev = ''source_participation.insert''"
    | (u) "event_type ev \<noteq> ''triple.insert''" "event_type ev \<noteq> ''factlet.insert''"
        "event_type ev \<noteq> ''source_participation.insert''"
    by blast
  then show ?thesis
  proof cases
    case t
    let ?sid = "JStr (sha256 (to_String (field (payload ev) ''subject'')))"
    let ?oid = "JStr (sha256 (to_String (field (payload ev) ''object'')))"
    let ?k = "(''ASSERTS'', (''Entity'', ?sid), (''Entity'', ?oid),
               [(''predicate'', field (payload ev) ''predicate'')])"
    from t assms(3) have n: "nodes (store s) (''Entity'', ?sid) \<noteq> None"
      "nodes (store s) (''Entity'', ?oid) \<noteq> None"
      and "rels (store s) ?k \<noteq> None"
      by (simp_all add: pattern_present_def Let_def del: not_None_eq)
    then obtain ps where ps: "rels (store s) ?k = Some ps" by blast
    from t assms(1,2) show ?thesis
      by (simp add: dispatch_def missing_required_def processTriple_def session_run_def Let_def
          forget_last_observed_def triple_cypher_settled [OF n ps] ps
          drop_props_set_props)
  next
    case f
    let ?fid = "JStr (sha256 (to_String (field (payload ev) ''crouton_id'')))"
    let ?pid = "JStr (sha256 (to_String (field (payload ev) ''source_url'')))"
    from f assms(3) have n: "nodes (store s) (''Factlet'', ?fid) \<noteq> None"
      "nodes (store s) (''WebPage'', ?pid) \<noteq> None"
      "rels (store s) (''FROM_PAGE'', (''Factlet'', ?fid), (''WebPage'', ?pid), []) \<noteq> None"
      by (simp_all add: pattern_present_def Let_def del: not_None_eq)
    from f assms(1,2) show ?thesis
      by (simp add: dispatch_def missing_required_def processFactlet_def session_run_def Let_def
          forget_last_observed_def factlet_cypher_settled [OF n])
  next
    case p
    let ?q = "participation_query_params e ev"
    have q: "participationId ?q =
               JStr (sha256 (to_String (field (payload ev) ''crouton_id'') @ '':''
                             @ to_String (field (payload ev) ''source_url'')))"
      "domainId ?q = JStr (sha256 (to_String (field (payload ev) ''source_domain'')))"
      "croutonId ?q = field (payload ev) ''crouton_id''"
      by (simp_all add: participation_query_params_def Let_def)
    from p assms(3) have n: "nodes (store s) (''SourceDomain'', domainId ?q) \<noteq> None"
      "nodes (store s) (''Crouton'', croutonId ?q) \<noteq> None"
      and sp: "nodes (store s) (''SourceParticipation'', participationId ?q) \<noteq> None"
      and r: "rels (store s) (''HAS_PARTICIPATION'', (''SourceDomain'', domainId ?q),
           (''SourceParticipation'', participationId ?q), []) \<noteq> None"
       "rels (store s) (''TRACKS_CROUTON'', (''SourceParticipation'', participationId ?q),
           (''Crouton'', croutonId ?q), []) \<noteq> None"
      by (simp_all add: pattern_present_def Let_def q del: not_None_eq)
    from sp obtain ps where ps: "nodes (store s) (''SourceParticipation'', participationId ?q) = Some ps"
      by blast
    have ps': "nodes (store s) (''SourceParticipation'',
                 JStr (sha256 (to_String (field (payload ev) ''crouton_id'') @ '':''
                             @ to_String (field (payload ev) ''source_url'')))) = Some ps"
      using ps by (simp add: q)
    have "forget_last_observed ev (participation_cypher ?q (store s)) = forget_last_observed ev (store s)"
      unfolding participation_cypher_settled [OF n ps r]
      using p ps' by (simp add: forget_last_observed_def q drop_props_set_props)
    with p assms(1,2) show ?thesis
      by (simp add: dispatch_def missing_required_def processSourceParticipation_def session_run_def)
  next
    case u
    then show ?thesis by (simp add: dispatch_def)
  qed
qed

lemma apply_times_settled:
  assumes "\<not> missing_required ev" "\<forall>e \<in> set es. graph_fault e = None"
    and "pattern_present ev (store s)"
  shows "fst (apply_times es ev s) = None \<and>
         forget_last_observed ev (store (snd (apply_times es ev s))) = forget_last_observed ev (store s)"
  using assms(2,3)
proof (induction es arbitrary: s)
  case Nil
  then show ?case by simp
next
  case (Cons e es)
  obtain x s' where d: "dispatch e ev s = (x, s')" by (cases "dispatch e ev s")
  from Cons.prems have e: "graph_fault e = None" by simp
  from dispatch_first [OF assms(1) e, of s] d have x: "x = None" and pp: "pattern_present ev (store s')"
    by simp_all
  from dispatch_again [OF assms(1) e Cons.prems(2)] d
  have fg: "forget_last_observed ev (store s') = forget_last_observed ev (store s)" by simp
  from Cons.IH [OF _ pp] Cons.prems(1)
  have "fst (apply_times es ev s') = None \<and>
         forget_last_observed ev (store (snd (apply_times es ev s'))) = forget_last_observed ev (store s')"
    by simp
  with d x fg show ?case by simp
qed

text \<open>
  Claim C1. For every event whose payload passes the validation of its kind, applying the
  transformer N times (N at least 1, the graph store never throwing) succeeds and leaves
  the same graph as the first application alone, but for the "last observed" fields:
  \<open>updated_at\<close> of the relationship for \<open>triple.insert\<close>, \<open>last_verified\<close> and
  \<open>updated_at\<close> of the participation node for \<open>source_participation.insert\<close>, nothing
  for \<open>factlet.insert\<close>. Every node, every other property and every relationship is
  the same, whatever the clock says at each application.
\<close>

theorem transformer_idempotent:
  assumes "\<not> missing_required ev" and "\<forall>e \<in> set (e0 # es). graph_fault e = None"
  shows "fst (apply_times (e0 # es) ev s) = None \<and>
         forget_last_observed ev (store (snd (apply_times (e0 # es) ev s)))
           = forget_last_observed ev (store (snd (dispatch e0 ev s)))"
proof -
  obtain x s' where d: "dispatch e0 ev s = (x, s')" by (cases "dispatch e0 ev s")
  from assms(2) have e: "graph_fault e0 = None" and es: "\<forall>e \<in> set es. graph_fault e = None"
    by simp_all
  from dispatch_first [OF assms(1) e, of s] d have x: "x = None" and pp: "pattern_present ev (store s')"
    by simp_all
  from apply_times_settled [OF assms(1) es pp] d x show ?thesis by simp
qed

theorem transformer_idempotent_witness:
  "\<not> missing_required triple_AB \<and>
   graph_fault (env_ok ''t1'') = None \<and> graph_fault (env_ok ''t2'') = None \<and>
   graph_fault (env_ok ''t3'') = None \<and>
   fst (apply_times [env_ok ''t1'', env_ok ''t2'', env_ok ''t3''] triple_AB no_graph) = None \<and>
   forget_last_observed triple_AB
       (store (snd (apply_times [env_ok ''t1'', env_ok ''t2'', env_ok ''t3''] triple_AB no_graph)))
     = forget_last_observed triple_AB (store (snd (dispatch (env_ok ''t1'') triple_AB no_graph)))"
proof -
  have v: "\<not> missing_required triple_AB"
    by (simp add: missing_required_def triple_AB_def field_def)
  have f: "\<forall>e \<in> set (env_ok ''t1'' # [env_ok ''t2'', env_ok ''t3'']). graph_fault e = None"
    by (simp add: env_ok_def)
  have g: "graph_fault (env_ok ''t1'') = None" "graph_fault (env_ok ''t2'') = None"
    "graph_fault (env_ok ''t3'') = None"
    by (simp_all add: env_ok_def)
  from transformer_idempotent [OF v f, of no_graph] v g show ?thesis by blast
qed

section \<open>Validation and the outcome of one record\<close>

lemma dispatch_missing:
  assumes "missing_required ev"
  shows "\<exists>msg. msg \<noteq> [] \<and> dispatch e ev s = (Some (Exn ''Error'' msg), s)"
  using assms
  by (auto simp add: missing_required_def dispatch_def processTriple_def processFactlet_def
      processSourceParticipation_def Let_def split: if_splits)

lemma dispatch_fault:
  assumes "\<not> missing_required ev" "recognized (event_type ev)" "graph_fault e = Some x"
  shows "dispatch e ev s = (Some x, s\<lparr>runs := Suc (runs s)\<rparr>)"
  using assms
  by (auto simp add: missing_required_def recognized_def dispatch_def processTriple_def
      processFactlet_def processSourceParticipation_def session_run_def Let_def split: if_splits)

lemma dispatch_unknown:
  assumes "\<not> recognized (event_type ev)"
  shows "dispatch e ev s = (None, s)"
  using assms by (simp add: recognized_def dispatch_def)

lemma missing_required_recognized: "missing_required ev \<Longrightarrow> recognized (event_type ev)"
  by (auto simp add: missing_required_def recognized_def split: if_splits)

lemma dispatch_throws_iff: "fst (dispatch e ev s) \<noteq> None \<longleftrightarrow> throws e ev"
proof (cases "missing_required ev")
  case True
  with dispatch_missing [OF True, of e s] show ?thesis by (auto simp add: throws_def)
next
  case False
  show ?thesis
  proof (cases "recognized (event_type ev)")
    case r: True
    show ?thesis
    proof (cases "graph_fault e")
      case None
      with dispatch_first [OF False None, of s] False show ?thesis by (simp add: throws_def)
    next
      case (Some x)
      with dispatch_fault [OF False r Some, of s] r show ?thesis by (simp add: throws_def)
    qed
  next
    case u: False
    with dispatch_unknown [OF u, of e s] False show ?thesis by (simp add: throws_def)
  qed
qed

lemma required_field_missing:
  assumes "f \<in> set (required_fields (event_type ev))" "\<not> truthy (field (payload ev) f)"
  shows "missing_required ev"
  using assms by (auto simp add: required_fields_def missing_required_def split: if_splits)

lemma absent_or_empty_falsy: "absent_or_empty v \<Longrightarrow> \<not> truthy v"
  by (auto simp add: absent_or_empty_def)

lemma process_event_throw:
  assumes "dispatch e ev (neo w) = (Some x, s')" "fail_fault e = None"
  shows "process_event e ev w =
     (None, \<lparr>outbox = mark_outcome (attempts ev + 1) (if attempts ev + 1 < 5 then Pending else Failed)
                (errorMsg x) (ev_id ev) (outbox w), neo = s'\<rparr>)"
  using assms by (simp add: process_event_def on_catch_def Let_def)

lemma process_event_ok:
  assumes "dispatch e ev (neo w) = (None, s')" "done_fault e = None"
  shows "process_event e ev w = (None, \<lparr>outbox = mark_done (ev_id ev) (outbox w), neo = s'\<rparr>)"
  using assms by (simp add: process_event_def)

text \<open>
  Claim C3, as the code has it. For every event kind, a required field that is absent or
  empty makes the transformer throw before any call of the graph store: the session is
  the same, no query has run. The write-back that follows adds one to the attempts, sets
  the error to the message of the exception, and moves the record back to \<open>pending\<close>
  when attempts + 1 is below 5 and to \<open>failed\<close> otherwise.
\<close>

theorem missing_field_fails_fast:
  assumes "f \<in> set (required_fields (event_type ev))"
    and "absent_or_empty (field (payload ev) f)"
    and "fail_fault e = None"
  shows "\<exists>msg. msg \<noteq> [] \<and> dispatch e ev (neo w) = (Some (Exn ''Error'' msg), neo w) \<and>
     process_event e ev w =
       (None, \<lparr>outbox = map (\<lambda>r. if ev_id r = ev_id ev
                                   then r\<lparr>attempts := attempts ev + 1,
                                          status := (if attempts ev + 1 < 5 then Pending else Failed),
                                          error := Some msg\<rparr>
                                   else r) (outbox w),
               neo = neo w\<rparr>)"
proof -
  have "missing_required ev"
    by (rule required_field_missing [OF assms(1) absent_or_empty_falsy [OF assms(2)]])
  from dispatch_missing [OF this, of e "neo w"] obtain msg where
    m: "msg \<noteq> []" and d: "dispatch e ev (neo w) = (Some (Exn ''Error'' msg), neo w)" by blast
  from process_event_throw [OF d assms(3)] m d show ?thesis
    by (auto simp add: mark_outcome_def)
qed

theorem missing_field_fails_fast_witness:
  "''subject'' \<in> set (required_fields (event_type triple_no_subject)) \<and>
   absent_or_empty (field (payload triple_no_subject) ''subject'') \<and>
   fail_fault (env_ok ''t1'') = None \<and>
   (\<exists>msg. msg \<noteq> [] \<and>
     dispatch (env_ok ''t1'') triple_no_subject no_graph = (Some (Exn ''Error'' msg), no_graph) \<and>
     process_event (env_ok ''t1'') triple_no_subject \<lparr>outbox = [triple_no_subject], neo = no_graph\<rparr> =
       (None, \<lparr>outbox = [triple_no_subject\<lparr>attempts := 5, status := Failed, error := Some msg\<rparr>],
               neo = no_graph\<rparr>))"
proof -
  have a: "''subject'' \<in> set (required_fields (event_type triple_no_subject))"
    by (simp add: required_fields_def triple_no_subject_def)
  have b: "absent_or_empty (field (payload triple_no_subject) ''subject'')"
    by (simp add: absent_or_empty_def field_def triple_no_subject_def)
  have c: "fail_fault (env_ok ''t1'') = None" by (simp add: env_ok_def)
  from missing_field_fails_fast [OF a b c, of "\<lparr>outbox = [triple_no_subject], neo = no_graph\<rparr>"]
  have "\<exists>msg. msg \<noteq> [] \<and>
     dispatch (env_ok ''t1'') triple_no_subject no_graph = (Some (Exn ''Error'' msg), no_graph) \<and>
     process_event (env_ok ''t1'') triple_no_subject \<lparr>outbox = [triple_no_subject], neo = no_graph\<rparr> =
       (None, \<lparr>outbox = [triple_no_subject\<lparr>attempts := 5, status := Failed, error := Some msg\<rparr>],
               neo = no_graph\<rparr>)"
    by (simp add: triple_no_subject_def)
  with a b c show ?thesis by blast
qed

text \<open>
  The claim as written sends every such record back to \<open>pending\<close>. A record with four
  attempts behind it and an empty subject ends \<open>failed\<close>.
\<close>

theorem missing_field_at_cap_counterexample:
  "process_event (env_ok ''t1'') triple_no_subject \<lparr>outbox = [triple_no_subject], neo = no_graph\<rparr> =
     (None, \<lparr>outbox = [triple_no_subject\<lparr>attempts := 5, status := Failed\<rparr>], neo = no_graph\<rparr>)
   \<and> status (triple_no_subject\<lparr>attempts := 5, status := Failed\<rparr>) \<noteq> Pending"
  by (simp add: process_event_def dispatch_def processTriple_def on_catch_def mark_outcome_def
      Let_def field_def triple_no_subject_def env_ok_def)

text \<open>
  Claim C6. A claimed record whose event kind is none of the three recognized kinds makes
  no call of the graph store (the session, its call counter included, is the same) and,
  when the write-back goes through, is marked \<open>done\<close> with one more attempt: its error
  field is not written and the failure branch is not taken.
\<close>

theorem unknown_kind_marked_done:
  assumes "event_type ev \<noteq> ''triple.insert''" and "event_type ev \<noteq> ''factlet.insert''"
    and "event_type ev \<noteq> ''source_participation.insert''"
    and "done_fault e = None"
  shows "dispatch e ev (neo w) = (None, neo w) \<and>
     process_event e ev w =
       (None, \<lparr>outbox = map (\<lambda>r. if ev_id r = ev_id ev
                                   then r\<lparr>status := Done, attempts := attempts r + 1\<rparr>
                                   else r) (outbox w),
               neo = neo w\<rparr>)"
proof -
  from assms(1-3) have u: "\<not> recognized (event_type ev)" by (simp add: recognized_def)
  have d: "dispatch e ev (neo w) = (None, neo w)" by (rule dispatch_unknown [OF u])
  from process_event_ok [OF d assms(4)] d show ?thesis by (simp add: mark_done_def)
qed

theorem unknown_kind_marked_done_witness:
  "event_type future_kind \<noteq> ''triple.insert'' \<and> event_type future_kind \<noteq> ''factlet.insert'' \<and>
   event_type future_kind \<noteq> ''source_participation.insert'' \<and>
   done_fault (env_ok ''t1'') = None \<and>
   dispatch (env_ok ''t1'') future_kind no_graph = (None, no_graph) \<and>
   process_event (env_ok ''t1'') future_kind \<lparr>outbox = [future_kind], neo = no_graph\<rparr> =
     (None, \<lparr>outbox = [future_kind\<lparr>status := Done, attempts := 1\<rparr>], neo = no_graph\<rparr>)"
proof -
  have a: "event_type future_kind \<noteq> ''triple.insert''"
    and b: "event_type future_kind \<noteq> ''factlet.insert''"
    and c: "event_type future_kind \<noteq> ''source_participation.insert''"
    by (simp_all add: future_kind_def)
  have d: "done_fault (env_ok ''t1'') = None" by (simp add: env_ok_def)
  from unknown_kind_marked_done [OF a b c d, of "\<lparr>outbox = [future_kind], neo = no_graph\<rparr>"]
  have "dispatch (env_ok ''t1'') future_kind no_graph = (None, no_graph) \<and>
   process_event (env_ok ''t1'') future_kind \<lparr>outbox = [future_kind], neo = no_graph\<rparr> =
     (None, \<lparr>outbox = [future_kind\<lparr>status := Done, attempts := 1\<rparr>], neo = no_graph\<rparr>)"
    by (simp add: future_kind_def)
  with a b c d show ?thesis by blast
qed

text \<open>
  Claim C5, as the code has it. For every claimed record whose transformer returns and
  whose write-back goes through, the write-back sets the status to \<open>done\<close> and adds one
  to the attempts of the row. It writes no other column: the error field of every row is
  what it was, so a message left by an earlier failed attempt stays on the row.
\<close>

theorem success_marks_done:
  assumes "fst (dispatch e ev (neo w)) = None" and "done_fault e = None"
  shows "outbox (snd (process_event e ev w)) =
           map (\<lambda>r. if ev_id r = ev_id ev then r\<lparr>status := Done, attempts := attempts r + 1\<rparr> else r)
             (outbox w)
         \<and> map error (outbox (snd (process_event e ev w))) = map error (outbox w)"
proof -
  obtain s' where d: "dispatch e ev (neo w) = (None, s')"
    using assms(1) by (cases "dispatch e ev (neo w)") simp
  have "map error (mark_done (ev_id ev) (outbox w)) = map error (outbox w)"
    by (induction "outbox w") (simp_all add: mark_done_def)
  with process_event_ok [OF d assms(2)] show ?thesis by (simp add: mark_done_def)
qed

theorem success_marks_done_witness:
  "fst (dispatch (env_ok ''t1'') triple_retried (neo \<lparr>outbox = [triple_retried], neo = no_graph\<rparr>)) = None \<and>
   done_fault (env_ok ''t1'') = None \<and>
   outbox (snd (process_event (env_ok ''t1'') triple_retried \<lparr>outbox = [triple_retried], neo = no_graph\<rparr>))
     = [triple_retried\<lparr>status := Done, attempts := 2\<rparr>] \<and>
   map error (outbox (snd (process_event (env_ok ''t1'') triple_retried
                              \<lparr>outbox = [triple_retried], neo = no_graph\<rparr>)))
     = [Some ''connection refused'']"
proof -
  have a: "fst (dispatch (env_ok ''t1'') triple_retried (neo \<lparr>outbox = [triple_retried], neo = no_graph\<rparr>)) = None"
    by (simp add: dispatch_def processTriple_def session_run_def Let_def field_def
        triple_retried_def env_ok_def)
  have b: "done_fault (env_ok ''t1'') = None" by (simp add: env_ok_def)
  from success_marks_done [OF a b]
  have "outbox (snd (process_event (env_ok ''t1'') triple_retried \<lparr>outbox = [triple_retried], neo = no_graph\<rparr>))
     = [triple_retried\<lparr>status := Done, attempts := 2\<rparr>] \<and>
   map error (outbox (snd (process_event (env_ok ''t1'') triple_retried
                              \<lparr>outbox = [triple_retried], neo = no_graph\<rparr>)))
     = [Some ''connection refused'']"
    by (simp add: triple_retried_def)
  with a b show ?thesis by blast
qed

text \<open>
  The claim as written has the error cleared. A triple that failed once with
  \<open>connection refused\<close> and now succeeds ends \<open>done\<close> with two attempts and the old
  message still in its error field.
\<close>

theorem success_keeps_error_counterexample:
  "fst (dispatch (env_ok ''t1'') triple_retried no_graph) = None \<and>
   outbox (snd (process_event (env_ok ''t1'') triple_retried \<lparr>outbox = [triple_retried], neo = no_graph\<rparr>))
     = [\<lparr>ev_id = 3, event_type = ''triple.insert'',
         payload = [(''subject'', JStr ''A''), (''predicate'', JStr ''knows''), (''object'', JStr ''B'')],
         occurred_at = 10, attempts = 2, status = Done, error = Some ''connection refused''\<rparr>]"
  by (simp add: process_event_def dispatch_def processTriple_def session_run_def mark_done_def
      Let_def field_def triple_retried_def env_ok_def)

section \<open>The parameters of the participation query\<close>

lemma set_props_Cons: "set_props ((k, v) # kvs) ps = set_props kvs (ps(k \<mapsto> v))"
  by (simp add: set_props_def)

lemma merge_node_other:
  "k \<noteq> (l, i) \<Longrightarrow> nodes (merge_node l i oc om g) k = nodes g k"
  by (simp add: merge_node_def split: option.splits)

lemma merge_node_created:
  "nodes g (l, i) = None \<Longrightarrow>
   nodes (merge_node l i oc om g) (l, i) = Some (set_props ((''id'', i) # oc) Map.empty)"
  by (simp add: merge_node_def)

lemma participation_created:
  assumes "nodes g (''SourceParticipation'', participationId q) = None"
  shows "nodes (participation_cypher q g) (''SourceParticipation'', participationId q) =
     Some (set_props
            [(''id'', participationId q),
             (''ai_readable_source'', aiReadableSource q),
             (''markdown_discovered'', markdownDiscovered q),
             (''discovery_method'', discoveryMethod q),
             (''first_observed'', firstObserved q),
             (''last_verified'', lastVerified q),
             (''created_at'', now q)] Map.empty)"
proof -
  let ?g2 = "merge_node ''Crouton'' (croutonId q) [(''created_at'', now q)] []
              (merge_node ''SourceDomain'' (domainId q)
                [(''name'', sourceDomain q), (''created_at'', now q)] [] g)"
  have "nodes ?g2 (''SourceParticipation'', participationId q) = None"
    using assms by (simp add: merge_node_other)
  then show ?thesis
    unfolding participation_cypher_def by (simp add: merge_rel_nodes merge_node_created)
qed

text \<open>
  Claim C10. For every \<open>source_participation.insert\<close> payload that passes validation, the
  query receives \<open>false\<close> for an absent or falsy \<open>ai_readable_source\<close> and
  \<open>markdown_discovered\<close>, the string \<open>unknown\<close> for an absent or falsy
  \<open>discovery_method\<close>, and the base timestamp for an absent or falsy \<open>first_observed\<close>
  and \<open>last_verified\<close>; the base timestamp is \<open>payload.first_observed\<close> when that is
  there and the reading of the clock otherwise. A participation node that the query
  creates carries exactly these values.
\<close>

theorem participation_defaults:
  assumes "event_type ev = ''source_participation.insert''" and "\<not> missing_required ev"
    and "graph_fault e = None"
  shows "processSourceParticipation e ev s =
           (None, \<lparr>store = participation_cypher (participation_query_params e ev) (store s),
                   runs = Suc (runs s)\<rparr>)
    \<and> aiReadableSource (participation_query_params e ev) =
         (if truthy (field (payload ev) ''ai_readable_source'')
          then field (payload ev) ''ai_readable_source'' else JBool False)
    \<and> markdownDiscovered (participation_query_params e ev) =
         (if truthy (field (payload ev) ''markdown_discovered'')
          then field (payload ev) ''markdown_discovered'' else JBool False)
    \<and> discoveryMethod (participation_query_params e ev) =
         (if truthy (field (payload ev) ''discovery_method'')
          then field (payload ev) ''discovery_method'' else JStr ''unknown'')
    \<and> now (participation_query_params e ev) =
         (if truthy (field (payload ev) ''first_observed'')
          then field (payload ev) ''first_observed'' else JStr (clock e))
    \<and> firstObserved (participation_query_params e ev) = now (participation_query_params e ev)
    \<and> lastVerified (participation_query_params e ev) =
         (if truthy (field (payload ev) ''last_verified'')
          then field (payload ev) ''last_verified'' else now (participation_query_params e ev))
    \<and> (nodes (store s) (''SourceParticipation'', participationId (participation_query_params e ev)) = None
        \<longrightarrow> (\<exists>ps. nodes (participation_cypher (participation_query_params e ev) (store s))
                      (''SourceParticipation'', participationId (participation_query_params e ev)) = Some ps
              \<and> ps ''ai_readable_source'' = Some (aiReadableSource (participation_query_params e ev))
              \<and> ps ''markdown_discovered'' = Some (markdownDiscovered (participation_query_params e ev))
              \<and> ps ''discovery_method'' = Some (discoveryMethod (participation_query_params e ev))
              \<and> ps ''first_observed'' = Some (firstObserved (participation_query_params e ev))
              \<and> ps ''last_verified'' = Some (lastVerified (participation_query_params e ev))))"
proof -
  have run: "processSourceParticipation e ev s =
           (None, \<lparr>store = participation_cypher (participation_query_params e ev) (store s),
                   runs = Suc (runs s)\<rparr>)"
    using assms by (simp add: processSourceParticipation_def missing_required_def session_run_def)
  have par: "aiReadableSource (participation_query_params e ev) =
         (if truthy (field (payload ev) ''ai_readable_source'')
          then field (payload ev) ''ai_readable_source'' else JBool False)"
    "markdownDiscovered (participation_query_params e ev) =
         (if truthy (field (payload ev) ''markdown_discovered'')
          then field (payload ev) ''markdown_discovered'' else JBool False)"
    "discoveryMethod (participation_query_params e ev) =
         (if truthy (field (payload ev) ''discovery_method'')
          then field (payload ev) ''discovery_method'' else JStr ''unknown'')"
    "now (participation_query_params e ev) =
         (if truthy (field (payload ev) ''first_observed'')
          then field (payload ev) ''first_observed'' else JStr (clock e))"
    "firstObserved (participation_query_params e ev) = now (participation_query_params e ev)"
    "lastVerified (participation_query_params e ev) =
         (if truthy (field (payload ev) ''last_verified'')
          then field (payload ev) ''last_verified'' else now (participation_query_params e ev))"
    by (simp_all add: participation_query_params_def Let_def js_or_def)
  have node: "nodes (store s) (''SourceParticipation'', participationId (participation_query_params e ev)) = None
        \<longrightarrow> (\<exists>ps. nodes (participation_cypher (participation_query_params e ev) (store s))
                      (''SourceParticipation'', participationId (participation_query_params e ev)) = Some ps
              \<and> ps ''ai_readable_source'' = Some (aiReadableSource (participation_query_params e ev))
              \<and> ps ''markdown_discovered'' = Some (markdownDiscovered (participation_query_params e ev))
              \<and> ps ''discovery_method'' = Some (discoveryMethod (participation_query_params e ev))
              \<and> ps ''first_observed'' = Some (firstObserved (participation_query_params e ev))
              \<and> ps ''last_verified'' = Some (lastVerified (participation_query_params e ev)))"
    by (simp add: participation_created set_props_Cons set_props_Nil)
  from run par node show ?thesis by blast
qed

theorem participation_defaults_witness:
  "event_type participation_min = ''source_participation.insert'' \<and>
   \<not> missing_required participation_min \<and>
   graph_fault (env_ok ''2025-11-01T00:00:00.000Z'') = None \<and>
   aiReadableSource (participation_query_params (env_ok ''2025-11-01T00:00:00.000Z'') participation_min)
     = JBool False \<and>
   markdownDiscovered (participation_query_params (env_ok ''2025-11-01T00:00:00.000Z'') participation_min)
     = JBool False \<and>
   discoveryMethod (participation_query_params (env_ok ''2025-11-01T00:00:00.000Z'') participation_min)
     = JStr ''unknown'' \<and>
   now (participation_query_params (env_ok ''2025-11-01T00:00:00.000Z'') participation_min)
     = JStr ''2025-11-01T00:00:00.000Z'' \<and>
   firstObserved (participation_query_params (env_ok ''2025-11-01T00:00:00.000Z'') participation_min)
     = JStr ''2025-11-01T00:00:00.000Z'' \<and>
   lastVerified (participation_query_params (env_ok ''2025-11-01T00:00:00.000Z'') participation_min)
     = JStr ''2025-11-01T00:00:00.000Z'' \<and>
   nodes (store no_graph)
     (''SourceParticipation'',
      participationId (participation_query_params (env_ok ''2025-11-01T00:00:00.000Z'') participation_min))
     = None \<and>
   (\<exists>ps. nodes (participation_cypher
                 (participation_query_params (env_ok ''2025-11-01T00:00:00.000Z'') participation_min)
                 (store no_graph))
            (''SourceParticipation'',
             participationId (participation_query_params (env_ok ''2025-11-01T00:00:00.000Z'') participation_min))
          = Some ps
        \<and> ps ''ai_readable_source'' = Some (JBool False)
        \<and> ps ''markdown_discovered'' = Some (JBool False)
        \<and> ps ''discovery_method'' = Some (JStr ''unknown'')
        \<and> ps ''first_observed'' = Some (JStr ''2025-11-01T00:00:00.000Z'')
        \<and> ps ''last_verified'' = Some (JStr ''2025-11-01T00:00:00.000Z''))"
proof -
  let ?e = "env_ok ''2025-11-01T00:00:00.000Z''"
  have a: "event_type participation_min = ''source_participation.insert''"
    by (simp add: participation_min_def)
  have b: "\<not> missing_required participation_min"
    by (simp add: missing_required_def participation_min_def field_def)
  have c: "graph_fault ?e = None" by (simp add: env_ok_def)
  have f: "field (payload participation_min) ''ai_readable_source'' = JUndefined"
    "field (payload participation_min) ''markdown_discovered'' = JUndefined"
    "field (payload participation_min) ''discovery_method'' = JUndefined"
    "field (payload participation_min) ''first_observed'' = JUndefined"
    "field (payload participation_min) ''last_verified'' = JUndefined"
    by (simp_all add: participation_min_def field_def)
  have k: "clock ?e = ''2025-11-01T00:00:00.000Z''" by (simp add: env_ok_def)
  have n: "nodes (store no_graph) (''SourceParticipation'',
      participationId (participation_query_params ?e participation_min)) = None"
    by (simp add: no_graph_def)
  from participation_defaults [OF a b c, of no_graph] n
  have "aiReadableSource (participation_query_params ?e participation_min) = JBool False \<and>
   markdownDiscovered (participation_query_params ?e participation_min) = JBool False \<and>
   discoveryMethod (participation_query_params ?e participation_min) = JStr ''unknown'' \<and>
   now (participation_query_params ?e participation_min) = JStr ''2025-11-01T00:00:00.000Z'' \<and>
   firstObserved (participation_query_params ?e participation_min) = JStr ''2025-11-01T00:00:00.000Z'' \<and>
   lastVerified (participation_query_params ?e participation_min) = JStr ''2025-11-01T00:00:00.000Z'' \<and>
   (\<exists>ps. nodes (participation_cypher (participation_query_params ?e participation_min) (store no_graph))
            (''SourceParticipation'', participationId (participation_query_params ?e participation_min))
          = Some ps
        \<and> ps ''ai_readable_source'' = Some (JBool False)
        \<and> ps ''markdown_discovered'' = Some (JBool False)
        \<and> ps ''discovery_method'' = Some (JStr ''unknown'')
        \<and> ps ''first_observed'' = Some (JStr ''2025-11-01T00:00:00.000Z'')
        \<and> ps ''last_verified'' = Some (JStr ''2025-11-01T00:00:00.000Z''))"
    by (auto simp add: f k)
  with a b c n show ?thesis by blast
qed

section \<open>What a claim returns and what the worker leaves alone\<close>

lemma claim_ids_pending:
  "i \<in> set (claim_ids m tbl) \<Longrightarrow> \<exists>r \<in> set tbl. ev_id r = i \<and> status r = Pending"
proof -
  assume "i \<in> set (claim_ids m tbl)"
  then obtain r where r: "r \<in> set (take m (sort_key occurred_at (filter (\<lambda>r. status r = Pending) tbl)))"
    and i: "ev_id r = i"
    by (auto simp add: claim_ids_def)
  from r have "r \<in> set (sort_key occurred_at (filter (\<lambda>r. status r = Pending) tbl))"
    by (rule in_set_takeD)
  then have "r \<in> set tbl \<and> status r = Pending" by simp
  with i show ?thesis by blast
qed

lemma not_pending_not_claimed:
  assumes "distinct (map ev_id tbl)" "r \<in> set tbl" "status r \<noteq> Pending"
  shows "ev_id r \<notin> set (claim_ids m tbl)"
proof
  assume "ev_id r \<in> set (claim_ids m tbl)"
  then obtain r' where r': "r' \<in> set tbl" "ev_id r' = ev_id r" "status r' = Pending"
    using claim_ids_pending by blast
  from assms(1) have "inj_on ev_id (set tbl)" by (simp add: distinct_map)
  with r'(1,2) assms(2) have "r' = r" by (auto dest: inj_onD)
  with r'(3) assms(3) show False by simp
qed

lemma claimBatch_Inr:
  assumes "claimBatch f lim tbl = Inr (rows, tbl')"
  shows "\<exists>n. lim = Some n \<and> 0 \<le> n \<and> f = None \<and>
     tbl' = map (\<lambda>r. if ev_id r \<in> set (claim_ids (nat n) tbl) then r\<lparr>status := Processing\<rparr> else r) tbl \<and>
     rows = filter (\<lambda>r. ev_id r \<in> set (claim_ids (nat n) tbl)) tbl'"
  using assms
  by (auto simp add: claimBatch_def Let_def split: option.splits if_splits)

lemma ev_id_claimed_map:
  "map ev_id (map (\<lambda>r. if P r then r\<lparr>status := Processing\<rparr> else r) tbl) = map ev_id tbl"
  by (induction tbl) simp_all

lemma claimBatch_ids:
  assumes "claimBatch f lim tbl = Inr (rows, tbl')"
  shows "map ev_id tbl' = map ev_id tbl"
proof -
  from claimBatch_Inr [OF assms] obtain n where
    "tbl' = map (\<lambda>r. if ev_id r \<in> set (claim_ids (nat n) tbl) then r\<lparr>status := Processing\<rparr> else r) tbl"
    by blast
  then show ?thesis by (simp only: ev_id_claimed_map)
qed

lemma claimBatch_skips:
  assumes "claimBatch f lim tbl = Inr (rows, tbl')"
    and "distinct (map ev_id tbl)" "r \<in> set tbl" "status r \<noteq> Pending"
  shows "r \<in> set tbl' \<and> ev_id r \<notin> ev_id ` set rows"
proof -
  from claimBatch_Inr [OF assms(1)] obtain n where
    t: "tbl' = map (\<lambda>r. if ev_id r \<in> set (claim_ids (nat n) tbl) then r\<lparr>status := Processing\<rparr> else r) tbl"
    and rw: "rows = filter (\<lambda>r. ev_id r \<in> set (claim_ids (nat n) tbl)) tbl'"
    by blast
  have no: "ev_id r \<notin> set (claim_ids (nat n) tbl)"
    by (rule not_pending_not_claimed [OF assms(2-4)])
  let ?f = "\<lambda>r. if ev_id r \<in> set (claim_ids (nat n) tbl) then r\<lparr>status := Processing\<rparr> else r"
  have "?f r = r" using no by simp
  moreover have "?f r \<in> set (map ?f tbl)" using assms(3) by (simp only: set_map) (rule imageI)
  ultimately have "r \<in> set tbl'" unfolding t by simp
  moreover have "ev_id r \<notin> ev_id ` set rows" unfolding rw using no by auto
  ultimately show ?thesis by blast
qed

lemma mark_done_ids: "map ev_id (mark_done i tbl) = map ev_id tbl"
  by (simp add: mark_done_def comp_def if_distrib cong: if_cong)

lemma mark_outcome_ids: "map ev_id (mark_outcome a st m i tbl) = map ev_id tbl"
  by (simp add: mark_outcome_def comp_def if_distrib cong: if_cong)

lemma mark_done_other: "r \<in> set tbl \<Longrightarrow> ev_id r \<noteq> i \<Longrightarrow> r \<in> set (mark_done i tbl)"
  by (force simp add: mark_done_def)

lemma mark_outcome_other: "r \<in> set tbl \<Longrightarrow> ev_id r \<noteq> i \<Longrightarrow> r \<in> set (mark_outcome a st m i tbl)"
  by (force simp add: mark_outcome_def)

lemma process_event_outbox:
  "outbox (snd (process_event e ev w)) = outbox w
   \<or> outbox (snd (process_event e ev w)) = mark_done (ev_id ev) (outbox w)
   \<or> (\<exists>a st m. outbox (snd (process_event e ev w)) = mark_outcome a st m (ev_id ev) (outbox w))"
  by (auto simp add: process_event_def on_catch_def Let_def split: prod.splits option.splits)

lemma process_event_ids: "map ev_id (outbox (snd (process_event e ev w))) = map ev_id (outbox w)"
  using process_event_outbox [of e ev w] by (auto simp add: mark_done_ids mark_outcome_ids)

lemma process_event_other:
  assumes "r \<in> set (outbox w)" "ev_id r \<noteq> ev_id ev"
  shows "r \<in> set (outbox (snd (process_event e ev w)))"
  using process_event_outbox [of e ev w] assms
  by (auto simp add: mark_done_other mark_outcome_other)

lemma process_batch_ids: "map ev_id (outbox (snd (process_batch es batch w))) = map ev_id (outbox w)"
proof (induction batch arbitrary: w)
  case Nil
  then show ?case by simp
next
  case (Cons ev batch)
  obtain x w' where p: "process_event (es (ev_id ev)) ev w = (x, w')"
    by (cases "process_event (es (ev_id ev)) ev w")
  with process_event_ids [of "es (ev_id ev)" ev w] have "map ev_id (outbox w') = map ev_id (outbox w)"
    by simp
  with Cons.IH [of w'] p show ?case by (cases x) simp_all
qed

lemma process_batch_other:
  assumes "r \<in> set (outbox w)" "ev_id r \<notin> ev_id ` set batch"
  shows "r \<in> set (outbox (snd (process_batch es batch w)))"
  using assms
proof (induction batch arbitrary: w)
  case Nil
  then show ?case by simp
next
  case (Cons ev batch)
  obtain x w' where p: "process_event (es (ev_id ev)) ev w = (x, w')"
    by (cases "process_event (es (ev_id ev)) ev w")
  from Cons.prems have "ev_id r \<noteq> ev_id ev" and rest: "ev_id r \<notin> ev_id ` set batch" by auto
  with process_event_other [OF Cons.prems(1), of ev "es (ev_id ev)"] p
  have "r \<in> set (outbox w')" by simp
  from Cons.IH [OF this rest] p show ?case by (cases x) (simp_all add: \<open>r \<in> set (outbox w')\<close>)
qed

lemma worker_cycle_ids: "map ev_id (outbox (worker_cycle penv c w)) = map ev_id (outbox w)"
proof (cases "claimBatch (claim_fault c) (BATCH_SIZE penv) (outbox w)")
  case (Inl x)
  then show ?thesis by (simp add: worker_cycle_def)
next
  case (Inr p)
  obtain rows tbl' where p: "p = (rows, tbl')" by (cases p)
  from claimBatch_ids Inr p have "map ev_id tbl' = map ev_id (outbox w)" by blast
  with Inr p process_batch_ids [of "envs c" rows "w\<lparr>outbox := tbl'\<rparr>"]
  show ?thesis by (simp add: worker_cycle_def)
qed

lemma worker_cycle_keeps:
  assumes "distinct (map ev_id (outbox w))" "r \<in> set (outbox w)" "status r \<noteq> Pending"
  shows "r \<in> set (outbox (worker_cycle penv c w))"
proof (cases "claimBatch (claim_fault c) (BATCH_SIZE penv) (outbox w)")
  case (Inl x)
  with assms(2) show ?thesis by (simp add: worker_cycle_def)
next
  case (Inr p)
  obtain rows tbl' where p: "p = (rows, tbl')" by (cases p)
  from Inr p have cb: "claimBatch (claim_fault c) (BATCH_SIZE penv) (outbox w) = Inr (rows, tbl')"
    by simp
  from claimBatch_skips [OF cb assms] have r: "r \<in> set tbl'" and n: "ev_id r \<notin> ev_id ` set rows"
    by simp_all
  from process_batch_other [of r "w\<lparr>outbox := tbl'\<rparr>" rows "envs c"] r n
  have "r \<in> set (outbox (snd (process_batch (envs c) rows (w\<lparr>outbox := tbl'\<rparr>))))" by simp
  with cb r show ?thesis by (simp add: worker_cycle_def)
qed

lemma worker_cycles_keeps:
  assumes "distinct (map ev_id (outbox w))" "r \<in> set (outbox w)" "status r \<noteq> Pending"
  shows "r \<in> set (outbox (worker_cycles penv cs w))
         \<and> distinct (map ev_id (outbox (worker_cycles penv cs w)))"
  using assms(1,2)
proof (induction cs arbitrary: w)
  case Nil
  then show ?case by simp
next
  case (Cons c cs)
  have d: "distinct (map ev_id (outbox (worker_cycle penv c w)))"
    using Cons.prems(1) by (simp add: worker_cycle_ids)
  have r: "r \<in> set (outbox (worker_cycle penv c w))"
    by (rule worker_cycle_keeps [OF Cons.prems assms(3)])
  from Cons.IH [OF d r] show ?case by simp
qed

section \<open>One failing record through the worker's turns\<close>

lemma throws_bookkeeping:
  "throws e (r\<lparr>attempts := a, status := st, error := m\<rparr>) = throws e r"
  "throws e (r\<lparr>status := st\<rparr>) = throws e r"
  by (simp_all add: throws_def missing_required_def)

lemma claim_single:
  assumes "status r = Pending" "0 < n"
  shows "claimBatch None (Some n) [r] = Inr ([r\<lparr>status := Processing\<rparr>], [r\<lparr>status := Processing\<rparr>])"
proof -
  from assms(2) obtain k where k: "nat n = Suc k" by (cases "nat n") auto
  have "claim_ids (nat n) [r] = [ev_id r]"
    using assms(1) by (simp add: claim_ids_def k)
  with assms(2) show ?thesis by (simp add: claimBatch_def)
qed

lemma cycle_single_failure:
  assumes "BATCH_SIZE penv = Some n" "0 < n" "claim_fault c = None" "status r = Pending"
    and "throws (envs c (ev_id r)) r" "fail_fault (envs c (ev_id r)) = None"
  shows "\<exists>msg s'. worker_cycle penv c \<lparr>outbox = [r], neo = s\<rparr> =
           \<lparr>outbox = [r\<lparr>attempts := attempts r + 1,
                         status := (if attempts r + 1 < 5 then Pending else Failed),
                         error := Some msg\<rparr>],
            neo = s'\<rparr>"
proof -
  let ?r = "r\<lparr>status := Processing\<rparr>"
  let ?e = "envs c (ev_id r)"
  have "throws ?e ?r" using assms(5) by (simp add: throws_bookkeeping)
  then have "fst (dispatch ?e ?r s) \<noteq> None" by (simp only: dispatch_throws_iff)
  then obtain x s' where d: "dispatch ?e ?r (neo \<lparr>outbox = [?r], neo = s\<rparr>) = (Some x, s')"
    by (cases "dispatch ?e ?r s") auto
  from process_event_throw [OF d assms(6)]
  have "process_event ?e ?r \<lparr>outbox = [?r], neo = s\<rparr> =
     (None, \<lparr>outbox = [r\<lparr>attempts := attempts r + 1,
                            status := (if attempts r + 1 < 5 then Pending else Failed),
                            error := Some (errorMsg x)\<rparr>], neo = s'\<rparr>)"
    by (simp add: mark_outcome_def)
  then have "worker_cycle penv c \<lparr>outbox = [r], neo = s\<rparr> =
           \<lparr>outbox = [r\<lparr>attempts := attempts r + 1,
                         status := (if attempts r + 1 < 5 then Pending else Failed),
                         error := Some (errorMsg x)\<rparr>],
            neo = s'\<rparr>"
    using assms(1,3) claim_single [OF assms(4,2)] by (simp add: worker_cycle_def)
  then show ?thesis by blast
qed

lemma failures_in_a_row:
  assumes "BATCH_SIZE penv = Some n" "0 < n"
  shows "status r = Pending \<Longrightarrow> attempts r < 5 \<Longrightarrow> attempts r + int (length cs) \<le> 5 \<Longrightarrow>
     \<forall>c \<in> set cs. claim_fault c = None \<and> throws (envs c (ev_id r)) r
                   \<and> fail_fault (envs c (ev_id r)) = None \<Longrightarrow>
     \<exists>m s'. worker_cycles penv cs \<lparr>outbox = [r], neo = s\<rparr> =
          \<lparr>outbox = [r\<lparr>attempts := attempts r + int (length cs),
                        status := (if attempts r + int (length cs) < 5 then Pending else Failed),
                        error := m\<rparr>],
           neo = s'\<rparr> \<and> (cs \<noteq> [] \<longrightarrow> m \<noteq> None)"
proof (induction cs arbitrary: r s)
  case Nil
  then have "\<lparr>outbox = [r], neo = s\<rparr> =
      \<lparr>outbox = [r\<lparr>attempts := attempts r + int (length ([] :: cycle_in list)),
                    status := (if attempts r + int (length ([] :: cycle_in list)) < 5 then Pending else Failed),
                    error := error r\<rparr>], neo = s\<rparr>"
    by simp
  then show ?case by (simp only: worker_cycles.simps) blast
next
  case (Cons c cs)
  from Cons.prems(4) have c: "claim_fault c = None" "throws (envs c (ev_id r)) r"
    "fail_fault (envs c (ev_id r)) = None"
    by simp_all
  let ?r1 = "\<lambda>msg. r\<lparr>attempts := attempts r + 1,
                       status := (if attempts r + 1 < 5 then Pending else Failed),
                       error := Some msg\<rparr>"
  from cycle_single_failure [OF assms c(1) Cons.prems(1) c(2,3), of s]
  obtain msg s1 where w1: "worker_cycle penv c \<lparr>outbox = [r], neo = s\<rparr> = \<lparr>outbox = [?r1 msg], neo = s1\<rparr>"
    by blast
  show ?case
  proof (cases cs)
    case Nil
    with w1 show ?thesis by auto
  next
    case (Cons c' cs')
    with \<open>attempts r + int (length (c # cs)) \<le> 5\<close>
    have lt: "attempts r + 1 < 5" by simp
    then have p1: "status (?r1 msg) = Pending" and l1: "attempts (?r1 msg) < 5" by simp_all
    have a1: "attempts (?r1 msg) + int (length cs) \<le> 5"
      using \<open>attempts r + int (length (c # cs)) \<le> 5\<close> by simp
    have all1: "\<forall>c \<in> set cs. claim_fault c = None \<and> throws (envs c (ev_id (?r1 msg))) (?r1 msg)
                   \<and> fail_fault (envs c (ev_id (?r1 msg))) = None"
      using \<open>\<forall>c \<in> set (c # cs). claim_fault c = None \<and> throws (envs c (ev_id r)) r
                   \<and> fail_fault (envs c (ev_id r)) = None\<close>
      by (simp add: throws_bookkeeping)
    from Cons.IH [OF p1 l1 a1 all1, of s1]
    obtain m s' where "worker_cycles penv cs \<lparr>outbox = [?r1 msg], neo = s1\<rparr> =
          \<lparr>outbox = [(?r1 msg)\<lparr>attempts := attempts (?r1 msg) + int (length cs),
                        status := (if attempts (?r1 msg) + int (length cs) < 5 then Pending else Failed),
                        error := m\<rparr>],
           neo = s'\<rparr>" and "cs \<noteq> [] \<longrightarrow> m \<noteq> None"
      by blast
    with w1 Cons show ?thesis by (auto simp add: add.assoc)
  qed
qed

lemma BATCH_SIZE_default: "penv ''BATCH_SIZE'' = None \<Longrightarrow> BATCH_SIZE penv = Some 500"
  by (simp add: BATCH_SIZE_def env_or_def parseInt_def is_digit_def digit_val_def Let_def)

lemma POLL_INTERVAL_MS_default: "penv ''POLL_INTERVAL_MS'' = None \<Longrightarrow> POLL_INTERVAL_MS penv = Some 2000"
  by (simp add: POLL_INTERVAL_MS_def env_or_def parseInt_def is_digit_def digit_val_def Let_def)

lemma cycle_idle:
  assumes "\<not> (\<exists>n. BATCH_SIZE penv = Some n \<and> 0 < n)"
  shows "outbox (worker_cycle penv c w) = outbox w"
proof (cases "claimBatch (claim_fault c) (BATCH_SIZE penv) (outbox w)")
  case (Inl x)
  then show ?thesis by (simp add: worker_cycle_def)
next
  case (Inr p)
  obtain rows tbl' where p: "p = (rows, tbl')" by (cases p)
  from claimBatch_Inr [of "claim_fault c" "BATCH_SIZE penv" "outbox w" rows tbl'] Inr p
  obtain n where n: "BATCH_SIZE penv = Some n" "0 \<le> n"
    and t: "tbl' = map (\<lambda>r. if ev_id r \<in> set (claim_ids (nat n) (outbox w))
                              then r\<lparr>status := Processing\<rparr> else r) (outbox w)"
    and rw: "rows = filter (\<lambda>r. ev_id r \<in> set (claim_ids (nat n) (outbox w))) tbl'"
    by auto
  from assms n have "n = 0" by force
  then have "claim_ids (nat n) (outbox w) = []" by (simp add: claim_ids_def)
  with t rw have "tbl' = outbox w" "rows = []" by simp_all
  with Inr p show ?thesis by (simp add: worker_cycle_def)
qed

text \<open>
  Claim C4. For every claimed record whose transformer throws, the write-back adds one to
  its attempts, sets the error to the message of the exception and sets the status to
  \<open>pending\<close> when attempts + 1 is below 5 and to \<open>failed\<close> otherwise. A \<open>failed\<close> row is
  left as it is by every turn of the worker and no claim returns it, so only a reset
  from outside brings it back. A pending record that fails in five turns in a row,
  starting with no attempt, ends \<open>failed\<close> with five attempts.
\<close>

theorem failure_state_machine:
  "(fst (dispatch e ev (neo w)) = Some x \<and> fail_fault e = None \<longrightarrow>
      outbox (snd (process_event e ev w)) =
        map (\<lambda>r. if ev_id r = ev_id ev
                 then r\<lparr>attempts := attempts ev + 1,
                        status := (if attempts ev + 1 < 5 then Pending else Failed),
                        error := Some (errorMsg x)\<rparr>
                 else r) (outbox w))
   \<and> (distinct (map ev_id (outbox w)) \<and> d \<in> set (outbox w) \<and> status d = Failed \<longrightarrow>
        d \<in> set (outbox (worker_cycles penv cs w)) \<and>
        (\<forall>f lim rows tbl'.
           claimBatch f lim (outbox (worker_cycles penv cs w)) = Inr (rows, tbl')
           \<longrightarrow> d \<in> set tbl' \<and> ev_id d \<notin> ev_id ` set rows))
   \<and> (attempts r = 0 \<and> status r = Pending \<and> length cs5 = 5 \<and> BATCH_SIZE penv = Some n \<and> 0 < n \<and>
       (\<forall>c \<in> set cs5. claim_fault c = None \<and> throws (envs c (ev_id r)) r
                        \<and> fail_fault (envs c (ev_id r)) = None) \<longrightarrow>
        (\<exists>msg. outbox (worker_cycles penv cs5 \<lparr>outbox = [r], neo = s\<rparr>) =
                  [r\<lparr>attempts := 5, status := Failed, error := Some msg\<rparr>]))"
proof (intro conjI impI)
  assume a: "fst (dispatch e ev (neo w)) = Some x \<and> fail_fault e = None"
  then obtain s' where d: "dispatch e ev (neo w) = (Some x, s')"
    by (cases "dispatch e ev (neo w)") simp
  from process_event_throw [OF d] a
  show "outbox (snd (process_event e ev w)) =
        map (\<lambda>r. if ev_id r = ev_id ev
                 then r\<lparr>attempts := attempts ev + 1,
                        status := (if attempts ev + 1 < 5 then Pending else Failed),
                        error := Some (errorMsg x)\<rparr>
                 else r) (outbox w)"
    by (simp add: mark_outcome_def)
next
  assume a: "distinct (map ev_id (outbox w)) \<and> d \<in> set (outbox w) \<and> status d = Failed"
  then have np: "status d \<noteq> Pending" by simp
  from worker_cycles_keeps [of w d penv cs] a np
  show "d \<in> set (outbox (worker_cycles penv cs w))" by simp
next
  assume a: "distinct (map ev_id (outbox w)) \<and> d \<in> set (outbox w) \<and> status d = Failed"
  then have np: "status d \<noteq> Pending" by simp
  from worker_cycles_keeps [of w d penv cs] a np
  have k: "d \<in> set (outbox (worker_cycles penv cs w))"
    "distinct (map ev_id (outbox (worker_cycles penv cs w)))" by simp_all
  show "\<forall>f lim rows tbl'.
           claimBatch f lim (outbox (worker_cycles penv cs w)) = Inr (rows, tbl')
           \<longrightarrow> d \<in> set tbl' \<and> ev_id d \<notin> ev_id ` set rows"
    using claimBatch_skips [OF _ k(2) k(1) np] by blast
next
  assume a: "attempts r = 0 \<and> status r = Pending \<and> length cs5 = 5 \<and> BATCH_SIZE penv = Some n \<and> 0 < n \<and>
       (\<forall>c \<in> set cs5. claim_fault c = None \<and> throws (envs c (ev_id r)) r
                        \<and> fail_fault (envs c (ev_id r)) = None)"
  then have b: "BATCH_SIZE penv = Some n" "0 < n" "status r = Pending" "attempts r < 5"
    "attempts r + int (length cs5) \<le> 5"
    "\<forall>c \<in> set cs5. claim_fault c = None \<and> throws (envs c (ev_id r)) r
                        \<and> fail_fault (envs c (ev_id r)) = None"
    by simp_all
  from a have ne: "cs5 \<noteq> []" by auto
  from failures_in_a_row [OF b, of s] ne a
  show "\<exists>msg. outbox (worker_cycles penv cs5 \<lparr>outbox = [r], neo = s\<rparr>) =
                  [r\<lparr>attempts := 5, status := Failed, error := Some msg\<rparr>]"
    by auto
qed

theorem failure_state_machine_witness:
  "fst (dispatch (env_ok ''t1'') triple_no_subject no_graph)
     = Some (Exn ''Error'' ''Missing required triple fields'') \<and>
   fail_fault (env_ok ''t1'') = None \<and>
   outbox (snd (process_event (env_ok ''t1'') triple_no_subject
                  \<lparr>outbox = [triple_no_subject, dead_letter], neo = no_graph\<rparr>))
     = [triple_no_subject\<lparr>attempts := 5, status := Failed,
                           error := Some ''Missing required triple fields''\<rparr>, dead_letter] \<and>
   distinct (map ev_id [triple_no_subject, dead_letter]) \<and> status dead_letter = Failed \<and>
   dead_letter \<in> set (outbox (worker_cycles Map.empty [calm]
                                \<lparr>outbox = [triple_no_subject, dead_letter], neo = no_graph\<rparr>)) \<and>
   attempts (triple_empty 0) = 0 \<and> status (triple_empty 0) = Pending \<and>
   BATCH_SIZE Map.empty = Some 500 \<and>
   claim_fault calm = None \<and> throws (envs calm (ev_id (triple_empty 0))) (triple_empty 0) \<and>
   fail_fault (envs calm (ev_id (triple_empty 0))) = None \<and>
   (\<exists>msg. outbox (worker_cycles Map.empty [calm, calm, calm, calm, calm]
                     \<lparr>outbox = [triple_empty 0], neo = no_graph\<rparr>)
          = [triple_empty 0\<lparr>attempts := 5, status := Failed, error := Some msg\<rparr>])"
proof -
  let ?w = "\<lparr>outbox = [triple_no_subject, dead_letter], neo = no_graph\<rparr>"
  let ?x = "Exn ''Error'' ''Missing required triple fields''"
  have a1: "fst (dispatch (env_ok ''t1'') triple_no_subject no_graph) = Some ?x"
    by (simp add: dispatch_def processTriple_def Let_def field_def triple_no_subject_def)
  have a2: "fail_fault (env_ok ''t1'') = None" by (simp add: env_ok_def)
  have b1: "distinct (map ev_id [triple_no_subject, dead_letter])"
    by (simp add: triple_no_subject_def dead_letter_def)
  have b2: "status dead_letter = Failed" by (simp add: dead_letter_def)
  have c1: "attempts (triple_empty 0) = 0" "status (triple_empty 0) = Pending"
    by (simp_all add: triple_empty_def)
  have c2: "BATCH_SIZE Map.empty = Some 500" by (simp add: BATCH_SIZE_default)
  have c3: "claim_fault calm = None" "throws (envs calm (ev_id (triple_empty 0))) (triple_empty 0)"
    "fail_fault (envs calm (ev_id (triple_empty 0))) = None"
    by (simp_all add: calm_def env_ok_def throws_def missing_required_def triple_empty_def field_def)
  note inst = failure_state_machine [of "env_ok ''t1''" triple_no_subject ?w ?x dead_letter
      Map.empty "[calm]" "triple_empty 0" "[calm, calm, calm, calm, calm]" 500 no_graph]
  from inst a1 a2
  have r1: "outbox (snd (process_event (env_ok ''t1'') triple_no_subject ?w))
     = [triple_no_subject\<lparr>attempts := 5, status := Failed,
                           error := Some ''Missing required triple fields''\<rparr>, dead_letter]"
    by (simp add: triple_no_subject_def dead_letter_def)
  from inst b1 b2
  have r2: "dead_letter \<in> set (outbox (worker_cycles Map.empty [calm] ?w))"
    by simp
  from inst c1 c2 c3
  have r3: "\<exists>msg. outbox (worker_cycles Map.empty [calm, calm, calm, calm, calm]
                     \<lparr>outbox = [triple_empty 0], neo = no_graph\<rparr>)
          = [triple_empty 0\<lparr>attempts := 5, status := Failed, error := Some msg\<rparr>]"
    by simp
  from a1 a2 r1 b1 b2 r2 c1 c2 c3 r3 show ?thesis by blast
qed

text \<open>
  Claim C8, as the code has it. The batch size (500 when \<open>BATCH_SIZE\<close> is unset) and the
  poll interval (2000 ms when \<open>POLL_INTERVAL_MS\<close> is unset) are read from the
  environment. The cap on attempts is not: under every environment that gives a positive
  batch size, a pending record whose transformer throws is dead-lettered when
  attempts + 1 reaches 5 and goes back to \<open>pending\<close> below that.
\<close>

theorem attempt_cap_is_five:
  "(penv ''BATCH_SIZE'' = None \<longrightarrow> BATCH_SIZE penv = Some 500)
   \<and> (penv ''POLL_INTERVAL_MS'' = None \<longrightarrow> POLL_INTERVAL_MS penv = Some 2000)
   \<and> (BATCH_SIZE penv = Some n \<and> 0 < n \<and> claim_fault c = None \<and> status r = Pending \<and>
       throws (envs c (ev_id r)) r \<and> fail_fault (envs c (ev_id r)) = None \<longrightarrow>
        (\<exists>msg. outbox (worker_cycle penv c \<lparr>outbox = [r], neo = s\<rparr>) =
                  [r\<lparr>attempts := attempts r + 1,
                      status := (if attempts r + 1 < 5 then Pending else Failed),
                      error := Some msg\<rparr>]))"
proof (intro conjI impI)
  assume "penv ''BATCH_SIZE'' = None"
  then show "BATCH_SIZE penv = Some 500" by (rule BATCH_SIZE_default)
next
  assume "penv ''POLL_INTERVAL_MS'' = None"
  then show "POLL_INTERVAL_MS penv = Some 2000" by (rule POLL_INTERVAL_MS_default)
next
  assume a: "BATCH_SIZE penv = Some n \<and> 0 < n \<and> claim_fault c = None \<and> status r = Pending \<and>
       throws (envs c (ev_id r)) r \<and> fail_fault (envs c (ev_id r)) = None"
  then have b: "BATCH_SIZE penv = Some n" "0 < n" "claim_fault c = None" "status r = Pending"
    "throws (envs c (ev_id r)) r" "fail_fault (envs c (ev_id r)) = None"
    by simp_all
  from cycle_single_failure [OF b, of s] obtain msg s' where
    "worker_cycle penv c \<lparr>outbox = [r], neo = s\<rparr> =
           \<lparr>outbox = [r\<lparr>attempts := attempts r + 1,
                         status := (if attempts r + 1 < 5 then Pending else Failed),
                         error := Some msg\<rparr>],
            neo = s'\<rparr>"
    by blast
  then have "outbox (worker_cycle penv c \<lparr>outbox = [r], neo = s\<rparr>) =
                  [r\<lparr>attempts := attempts r + 1,
                      status := (if attempts r + 1 < 5 then Pending else Failed),
                      error := Some msg\<rparr>]"
    by simp
  then show "\<exists>msg. outbox (worker_cycle penv c \<lparr>outbox = [r], neo = s\<rparr>) =
                  [r\<lparr>attempts := attempts r + 1,
                      status := (if attempts r + 1 < 5 then Pending else Failed),
                      error := Some msg\<rparr>]"
    by blast
qed

theorem attempt_cap_is_five_witness:
  "env_max_attempts_3 ''BATCH_SIZE'' = None \<and> BATCH_SIZE env_max_attempts_3 = Some 500 \<and>
   env_max_attempts_3 ''POLL_INTERVAL_MS'' = None \<and> POLL_INTERVAL_MS env_max_attempts_3 = Some 2000 \<and>
   claim_fault calm = None \<and> status (triple_empty 2) = Pending \<and>
   throws (envs calm (ev_id (triple_empty 2))) (triple_empty 2) \<and>
   fail_fault (envs calm (ev_id (triple_empty 2))) = None \<and>
   (\<exists>msg. outbox (worker_cycle env_max_attempts_3 calm \<lparr>outbox = [triple_empty 2], neo = no_graph\<rparr>)
          = [triple_empty 2\<lparr>attempts := 3, status := Pending, error := Some msg\<rparr>])"
proof -
  have a: "env_max_attempts_3 ''BATCH_SIZE'' = None" "env_max_attempts_3 ''POLL_INTERVAL_MS'' = None"
    by (simp_all add: env_max_attempts_3_def)
  have c: "claim_fault calm = None" "status (triple_empty 2) = Pending"
    "throws (envs calm (ev_id (triple_empty 2))) (triple_empty 2)"
    "fail_fault (envs calm (ev_id (triple_empty 2))) = None"
    by (simp_all add: calm_def env_ok_def throws_def missing_required_def triple_empty_def field_def)
  note inst = attempt_cap_is_five [of env_max_attempts_3 500 calm "triple_empty 2" no_graph]
  from inst a have b: "BATCH_SIZE env_max_attempts_3 = Some 500"
    "POLL_INTERVAL_MS env_max_attempts_3 = Some 2000"
    by simp_all
  from inst b c
  have "\<exists>msg. outbox (worker_cycle env_max_attempts_3 calm \<lparr>outbox = [triple_empty 2], neo = no_graph\<rparr>)
          = [triple_empty 2\<lparr>attempts := 3, status := Pending, error := Some msg\<rparr>]"
    by (simp add: triple_empty_def)
  with a b c show ?thesis by blast
qed

text \<open>
  The claim as written has some environment under which the worker dead-letters at a
  cap other than 5. There is none: whatever the environment and whatever cap other than
  5 is proposed, the pending triple without fields is not dead-lettered at that cap.
\<close>

theorem configured_cap_counterexample:
  "\<not> (\<exists>penv cap. cap \<noteq> 5 \<and>
        (\<forall>a. map status (outbox (worker_cycle penv calm \<lparr>outbox = [triple_empty a], neo = no_graph\<rparr>))
               = [if a + 1 < cap then Pending else Failed]))"
proof
  assume "\<exists>penv cap. cap \<noteq> 5 \<and>
        (\<forall>a. map status (outbox (worker_cycle penv calm \<lparr>outbox = [triple_empty a], neo = no_graph\<rparr>))
               = [if a + 1 < cap then Pending else Failed])"
  then obtain penv and cap :: int where cap: "cap \<noteq> 5"
    and H: "\<And>a. map status (outbox (worker_cycle penv calm \<lparr>outbox = [triple_empty a], neo = no_graph\<rparr>))
               = [if a + 1 < cap then Pending else Failed]"
    by blast
  show False
  proof (cases "\<exists>n. BATCH_SIZE penv = Some n \<and> 0 < n")
    case True
    then obtain n where n: "BATCH_SIZE penv = Some n" "0 < n" by blast
    have c: "claim_fault calm = None" "\<And>a. status (triple_empty a) = Pending"
      "\<And>a. throws (envs calm (ev_id (triple_empty a))) (triple_empty a)"
      "\<And>a. fail_fault (envs calm (ev_id (triple_empty a))) = None"
      by (simp_all add: calm_def env_ok_def throws_def missing_required_def triple_empty_def field_def)
    have code: "map status (outbox (worker_cycle penv calm \<lparr>outbox = [triple_empty a], neo = no_graph\<rparr>))
               = [if a + 1 < 5 then Pending else Failed]" for a
      using cycle_single_failure [OF n c(1) c(2) [of a] c(3) [of a] c(4) [of a], of no_graph]
      by (auto simp add: triple_empty_def)
    show False
    proof (cases "cap < 5")
      case True
      from H [of "cap - 1"] code [of "cap - 1"] True show False by simp
    next
      case False
      with cap have "5 < cap" by simp
      with H [of 4] code [of 4] show False by simp
    qed
  next
    case False
    from cycle_idle [OF False, of calm "\<lparr>outbox = [triple_empty (cap - 1)], neo = no_graph\<rparr>"]
      H [of "cap - 1"]
    show False by (simp add: triple_empty_def)
  qed
qed

section \<open>The batch of a claim\<close>

lemma claimBatch_only_pending:
  assumes "claimBatch f lim tbl = Inr (rows, tbl')" "r \<in> set rows"
  shows "status r = Processing \<and> r \<in> set tbl' \<and>
         (\<exists>r0 \<in> set tbl. status r0 = Pending \<and> ev_id r0 = ev_id r)"
proof -
  from claimBatch_Inr [OF assms(1)] obtain n where
    t: "tbl' = map (\<lambda>r. if ev_id r \<in> set (claim_ids (nat n) tbl) then r\<lparr>status := Processing\<rparr> else r) tbl"
    and rw: "rows = filter (\<lambda>r. ev_id r \<in> set (claim_ids (nat n) tbl)) tbl'"
    by blast
  from assms(2) have i: "ev_id r \<in> set (claim_ids (nat n) tbl)" and m: "r \<in> set tbl'"
    unfolding rw by simp_all
  let ?f = "\<lambda>r. if ev_id r \<in> set (claim_ids (nat n) tbl) then r\<lparr>status := Processing\<rparr> else r"
  from m have "r \<in> ?f ` set tbl" unfolding t by (simp only: set_map)
  then obtain r1 where r1: "r1 \<in> set tbl" "r = ?f r1" by (rule imageE)
  have "ev_id (?f r1) = ev_id r1" by simp
  then have "ev_id r1 = ev_id r" by (simp only: r1(2))
  with i have "?f r1 = r1\<lparr>status := Processing\<rparr>" by simp
  then have "status (?f r1) = Processing" by simp
  then have "status r = Processing" by (simp only: r1(2))
  with m claim_ids_pending [OF i] show ?thesis by blast
qed

lemma claimBatch_at_most:
  assumes "claimBatch f (Some n) tbl = Inr (rows, tbl')" "distinct (map ev_id tbl)"
  shows "length rows \<le> nat n"
proof -
  from claimBatch_Inr [OF assms(1)] have
    rw: "rows = filter (\<lambda>r. ev_id r \<in> set (claim_ids (nat n) tbl)) tbl'"
    by auto
  have d: "distinct (map ev_id tbl')" using claimBatch_ids [OF assms(1)] assms(2) by simp
  have "map ev_id rows = filter (\<lambda>i. i \<in> set (claim_ids (nat n) tbl)) (map ev_id tbl')"
    unfolding rw by (simp add: filter_map comp_def)
  with d have dr: "distinct (map ev_id rows)" and
    sub: "set (map ev_id rows) \<subseteq> set (claim_ids (nat n) tbl)"
    by auto
  have "length rows = length (map ev_id rows)" by simp
  also have "\<dots> = card (set (map ev_id rows))" using dr by (simp only: distinct_card)
  also have "\<dots> \<le> card (set (claim_ids (nat n) tbl))" using sub by (simp add: card_mono)
  also have "\<dots> \<le> length (claim_ids (nat n) tbl)" by (rule card_length)
  also have "\<dots> \<le> nat n" by (simp add: claim_ids_def)
  finally show ?thesis .
qed

lemma claimBatch_oldest:
  assumes "claimBatch f lim tbl = Inr (rows, tbl')" "r \<in> set rows"
    and "q \<in> set tbl" "status q = Pending" "ev_id q \<notin> ev_id ` set rows"
  shows "\<exists>r0 \<in> set tbl. status r0 = Pending \<and> ev_id r0 = ev_id r \<and> occurred_at r0 \<le> occurred_at q"
proof -
  from claimBatch_Inr [OF assms(1)] obtain n where
    t: "tbl' = map (\<lambda>r. if ev_id r \<in> set (claim_ids (nat n) tbl) then r\<lparr>status := Processing\<rparr> else r) tbl"
    and rw: "rows = filter (\<lambda>r. ev_id r \<in> set (claim_ids (nat n) tbl)) tbl'"
    by blast
  let ?srt = "sort_key occurred_at (filter (\<lambda>r. status r = Pending) tbl)"
  from assms(2) have "ev_id r \<in> set (claim_ids (nat n) tbl)" unfolding rw by simp
  then obtain r0 where r0: "r0 \<in> set (take (nat n) ?srt)" "ev_id r0 = ev_id r"
    by (auto simp add: claim_ids_def)
  from r0(1) have "r0 \<in> set ?srt" by (rule in_set_takeD)
  then have r0p: "r0 \<in> set tbl" "status r0 = Pending" by simp_all
  have "q \<notin> set (take (nat n) ?srt)"
  proof
    assume "q \<in> set (take (nat n) ?srt)"
    then have qi: "ev_id q \<in> set (claim_ids (nat n) tbl)" by (simp add: claim_ids_def)
    let ?f = "\<lambda>r. if ev_id r \<in> set (claim_ids (nat n) tbl) then r\<lparr>status := Processing\<rparr> else r"
    have "?f q \<in> set tbl'" unfolding t using assms(3) by (simp only: set_map) (rule imageI)
    moreover have e: "ev_id (?f q) = ev_id q" by simp
    ultimately have "?f q \<in> set rows" unfolding rw using qi by simp
    then have "ev_id (?f q) \<in> ev_id ` set rows" by (rule imageI)
    then have "ev_id q \<in> ev_id ` set rows" by (simp only: e)
    with assms(5) show False by blast
  qed
  moreover have "q \<in> set ?srt" using assms(3,4) by simp
  ultimately have qd: "q \<in> set (drop (nat n) ?srt)"
    by (metis Un_iff append_take_drop_id set_append)
  have "sorted (map occurred_at (take (nat n) ?srt) @ map occurred_at (drop (nat n) ?srt))"
    by (simp only: map_append [symmetric] append_take_drop_id sorted_sort_key)
  then have "\<forall>a \<in> set (map occurred_at (take (nat n) ?srt)).
               \<forall>b \<in> set (map occurred_at (drop (nat n) ?srt)). a \<le> b"
    unfolding sorted_append by blast
  moreover have "occurred_at r0 \<in> set (map occurred_at (take (nat n) ?srt))"
    using r0(1) by (simp only: set_map) (rule imageI)
  moreover have "occurred_at q \<in> set (map occurred_at (drop (nat n) ?srt))"
    using qd by (simp only: set_map) (rule imageI)
  ultimately have "occurred_at r0 \<le> occurred_at q" by blast
  with r0p r0(2) show ?thesis by blast
qed

lemma claimBatch_invisible:
  assumes "claimBatch f lim tbl = Inr (rows, tbl')" "distinct (map ev_id tbl)"
    and "claimBatch f2 lim2 tbl' = Inr (rows2, tbl2)"
  shows "ev_id ` set rows \<inter> ev_id ` set rows2 = {}"
proof -
  have d: "distinct (map ev_id tbl')" using claimBatch_ids [OF assms(1)] assms(2) by simp
  have "ev_id r \<notin> ev_id ` set rows2" if "r \<in> set rows" for r
  proof -
    from claimBatch_only_pending [OF assms(1) that] have "r \<in> set tbl'" "status r \<noteq> Pending"
      by simp_all
    from claimBatch_skips [OF assms(3) d this] show ?thesis by simp
  qed
  then show ?thesis by blast
qed
lemma claim_two_factlets:
  "claimBatch None (Some 500) [factlet_late, factlet_early] =
     Inr ([factlet_late\<lparr>status := Processing\<rparr>, factlet_early\<lparr>status := Processing\<rparr>],
          [factlet_late\<lparr>status := Processing\<rparr>, factlet_early\<lparr>status := Processing\<rparr>])"
proof -
  have "claim_ids (nat 500) [factlet_late, factlet_early] = [2, 1]"
    by (simp add: claim_ids_def factlet_late_def factlet_early_def)
  then show ?thesis
    by (simp add: claimBatch_def factlet_late_def factlet_early_def)
qed

lemma late_factlet_first:
  "dispatch (env_ok t) (factlet_late\<lparr>status := Processing\<rparr>) no_graph =
     (None, \<lparr>store = factlet_cypher (JStr (sha256 ''c1'')) (JStr ''c1'') (JStr ''second wording'')
                        (JStr (sha256 ''https://example.org/a'')) (JStr ''https://example.org/a'')
                        (JStr ''2025-01-20'') (store no_graph),
             runs = 1\<rparr>)"
  by (simp add: dispatch_def processFactlet_def session_run_def Let_def field_def js_or_def
      factlet_late_def env_ok_def no_graph_def)

lemma early_factlet_second:
  "dispatch (env_ok t) (factlet_early\<lparr>status := Processing\<rparr>) s =
     (None, \<lparr>store = factlet_cypher (JStr (sha256 ''c1'')) (JStr ''c1'') (JStr ''first wording'')
                        (JStr (sha256 ''https://example.org/a'')) (JStr ''https://example.org/a'')
                        (JStr ''2025-01-10'') (store s),
             runs = Suc (runs s)\<rparr>)"
  by (simp add: dispatch_def processFactlet_def session_run_def Let_def field_def js_or_def
      factlet_early_def env_ok_def)

lemma cycle_two_factlets:
  "worker_cycle Map.empty calm \<lparr>outbox = [factlet_late, factlet_early], neo = no_graph\<rparr> =
     \<lparr>outbox = [factlet_late\<lparr>status := Done, attempts := 1\<rparr>,
                factlet_early\<lparr>status := Done, attempts := 1\<rparr>],
      neo = \<lparr>store = factlet_cypher (JStr (sha256 ''c1'')) (JStr ''c1'') (JStr ''first wording'')
                        (JStr (sha256 ''https://example.org/a'')) (JStr ''https://example.org/a'')
                        (JStr ''2025-01-10'')
                 (factlet_cypher (JStr (sha256 ''c1'')) (JStr ''c1'') (JStr ''second wording'')
                        (JStr (sha256 ''https://example.org/a'')) (JStr ''https://example.org/a'')
                        (JStr ''2025-01-20'') (store no_graph)),
             runs = 2\<rparr>\<rparr>"
proof -
  have b: "BATCH_SIZE Map.empty = Some 500" by (simp add: BATCH_SIZE_default)
  have i: "ev_id (factlet_late\<lparr>status := Processing\<rparr>) = 1" "ev_id (factlet_early\<lparr>status := Processing\<rparr>) = 2"
    by (simp_all add: factlet_late_def factlet_early_def)
  have e: "envs calm i = env_ok ''2025-11-01T00:00:00.000Z''" "claim_fault calm = None" for i
    by (simp_all add: calm_def)
  have d: "done_fault (env_ok t) = None" for t by (simp add: env_ok_def)
  have m1: "mark_done 1 [factlet_late\<lparr>status := Processing\<rparr>, factlet_early\<lparr>status := Processing\<rparr>]
      = [factlet_late\<lparr>status := Done, attempts := 1\<rparr>, factlet_early\<lparr>status := Processing\<rparr>]"
    by (simp add: mark_done_def factlet_late_def factlet_early_def)
  have m2: "mark_done 2 [factlet_late\<lparr>status := Done, attempts := 1\<rparr>, factlet_early\<lparr>status := Processing\<rparr>]
      = [factlet_late\<lparr>status := Done, attempts := 1\<rparr>, factlet_early\<lparr>status := Done, attempts := 1\<rparr>]"
    by (simp add: mark_done_def factlet_late_def factlet_early_def)
  show ?thesis
    by (simp add: worker_cycle_def b e claim_two_factlets process_event_def i
        late_factlet_first early_factlet_second d m1 m2)
qed

text \<open>
  Claim C2 at a table whose storage order is not the order of \<open>occurred_at\<close>. Both
  pending rows are claimed, set to \<open>processing\<close> and returned, but in the order of the
  table: the record of time 20 comes before the record of time 10. The worker processes
  the batch as returned, so the factlet node is created by the later record and keeps its
  wording and timestamp.
\<close>

theorem claim_returns_storage_order:
  "claimBatch None (Some 500) [factlet_late, factlet_early] =
     Inr ([factlet_late\<lparr>status := Processing\<rparr>, factlet_early\<lparr>status := Processing\<rparr>],
          [factlet_late\<lparr>status := Processing\<rparr>, factlet_early\<lparr>status := Processing\<rparr>])
   \<and> map occurred_at [factlet_late\<lparr>status := Processing\<rparr>, factlet_early\<lparr>status := Processing\<rparr>]
       = [20, 10]
   \<and> map status (outbox (worker_cycle Map.empty calm
                            \<lparr>outbox = [factlet_late, factlet_early], neo = no_graph\<rparr>)) = [Done, Done]
   \<and> (\<exists>ps. nodes (store (neo (worker_cycle Map.empty calm
                                  \<lparr>outbox = [factlet_late, factlet_early], neo = no_graph\<rparr>)))
               (''Factlet'', JStr (sha256 ''c1'')) = Some ps
          \<and> ps ''claim'' = Some (JStr ''second wording'')
          \<and> ps ''created_at'' = Some (JStr ''2025-01-20''))"
proof -
  have o: "map occurred_at [factlet_late\<lparr>status := Processing\<rparr>, factlet_early\<lparr>status := Processing\<rparr>]
       = [20, 10]"
    by (simp add: factlet_late_def factlet_early_def)
  have st: "map status (outbox (worker_cycle Map.empty calm
                            \<lparr>outbox = [factlet_late, factlet_early], neo = no_graph\<rparr>)) = [Done, Done]"
    by (simp add: cycle_two_factlets)
  let ?g1 = "factlet_cypher (JStr (sha256 ''c1'')) (JStr ''c1'') (JStr ''second wording'')
                        (JStr (sha256 ''https://example.org/a'')) (JStr ''https://example.org/a'')
                        (JStr ''2025-01-20'') (store no_graph)"
  have n1: "nodes ?g1 (''Factlet'', JStr (sha256 ''c1'')) =
      Some (set_props [(''id'', JStr (sha256 ''c1'')), (''fact_id'', JStr ''c1''),
                       (''claim'', JStr ''second wording''), (''created_at'', JStr ''2025-01-20'')] Map.empty)"
    by (simp add: factlet_cypher_def merge_rel_nodes merge_node_other merge_node_created no_graph_def)
  from factlet_cypher_settles [of "JStr (sha256 ''c1'')" "JStr ''c1''" "JStr ''second wording''"
      "JStr (sha256 ''https://example.org/a'')" "JStr ''https://example.org/a''" "JStr ''2025-01-20''"
      "store no_graph"]
  have "factlet_cypher (JStr (sha256 ''c1'')) (JStr ''c1'') (JStr ''first wording'')
                        (JStr (sha256 ''https://example.org/a'')) (JStr ''https://example.org/a'')
                        (JStr ''2025-01-10'') ?g1 = ?g1"
    by (intro factlet_cypher_settled) simp_all
  with n1 have "nodes (store (neo (worker_cycle Map.empty calm
                                  \<lparr>outbox = [factlet_late, factlet_early], neo = no_graph\<rparr>)))
               (''Factlet'', JStr (sha256 ''c1'')) =
      Some (set_props [(''id'', JStr (sha256 ''c1'')), (''fact_id'', JStr ''c1''),
                       (''claim'', JStr ''second wording''), (''created_at'', JStr ''2025-01-20'')] Map.empty)"
    by (simp add: cycle_two_factlets)
  then have "\<exists>ps. nodes (store (neo (worker_cycle Map.empty calm
                                  \<lparr>outbox = [factlet_late, factlet_early], neo = no_graph\<rparr>)))
               (''Factlet'', JStr (sha256 ''c1'')) = Some ps
          \<and> ps ''claim'' = Some (JStr ''second wording'')
          \<and> ps ''created_at'' = Some (JStr ''2025-01-20'')"
    by (simp add: set_props_Cons set_props_Nil)
  with claim_two_factlets o st show ?thesis by blast
qed

end
